theory Spec2Isabelle
  imports Main "HOL-Library.AList"
begin

section \<open>Values, errors and files\<close>

text \<open>
  The duty-roster bot of \<^verbatim>\<open>main.py\<close> keeps its rotation state in a JSON file and
  reads it back with \<^verbatim>\<open>json.loads\<close>, so a state is whatever JSON value the file
  denotes. A JSON object is an association list (Python dictionaries keep insertion
  order); Python integers are unbounded, hence \<open>int\<close>. The payload of a JSON float is
  its literal: the program never computes with one successfully.
\<close>

datatype json =
    JNull
  | JBool bool
  | JInt int
  | JFloat string
  | JStr string
  | JList "json list"
  | JObj "(string \<times> json) list"

datatype py_error =
    KeyError
  | TypeError
  | IndexError
  | ValueError
  | ZeroDivisionError
  | FileNotFoundError
  | PermissionError
  | UnicodeDecodeError
  | JSONDecodeError

text \<open>Sequencing of computations that may raise: the first exception wins.\<close>

definition bnd :: "py_error + 'a \<Rightarrow> ('a \<Rightarrow> py_error + 'b) \<Rightarrow> py_error + 'b" where
  "bnd m f = (case m of Inl e \<Rightarrow> Inl e | Inr x \<Rightarrow> f x)"

text \<open>\<^verbatim>\<open>obj[key]\<close> with a string key: only a dictionary accepts it.\<close>

fun getitem :: "json \<Rightarrow> string \<Rightarrow> py_error + json" where
  "getitem (JObj kvs) k = (case map_of kvs k of None \<Rightarrow> Inl KeyError | Some v \<Rightarrow> Inr v)"
| "getitem _ k = Inl TypeError"

text \<open>\<^verbatim>\<open>obj[key] = v\<close> with a string key, returning the mutated object.\<close>

fun setitem :: "json \<Rightarrow> string \<Rightarrow> json \<Rightarrow> py_error + json" where
  "setitem (JObj kvs) k v = Inr (JObj (AList.update k v kvs))"
| "setitem _ k v = Inl TypeError"

text \<open>
  The value read at \<^verbatim>\<open>state["indexes"][key]\<close> is used as
  \<^verbatim>\<open>lst[(start_idx + i) % length]\<close> at least once (every configured count is
  positive). Integers go through, and so do booleans, which are integers in Python;
  a string, \<^verbatim>\<open>None\<close>, list or dictionary raises TypeError at the addition and
  a float at the list subscript.
\<close>

fun as_index :: "json \<Rightarrow> py_error + int" where
  "as_index (JInt i) = Inr i"
| "as_index (JBool b) = Inr (if b then 1 else 0)"
| "as_index _ = Inl TypeError"

text \<open>
  Files of the data directory. A CSV file is represented by the list of cells that
  \<^verbatim>\<open>[x.strip() for x in row.split(",") if x.strip()]\<close> yields for its content;
  the text of a JSON file is either the serialisation of a JSON value or text that
  \<^verbatim>\<open>json.loads\<close> rejects. A file that exists holds such text, or bytes that are
  not UTF-8, or it exists (\<^verbatim>\<open>Path.exists\<close> is true) and may not be read.
\<close>

datatype file_text = Json_text json | Bad_text

datatype stored_file = Text file_text | Not_utf8 | No_permission

record data_dir =
  csv_files :: "string \<rightharpoonup> string list"
  state_file :: "stored_file option"
  this_week_file :: "stored_file option"

text \<open>
  \<^verbatim>\<open>Path.read_text(encoding="utf-8")\<close>: it raises when the file is absent, when
  it may not be opened and when its bytes do not decode.
\<close>

definition read_text :: "stored_file option \<Rightarrow> py_error + file_text" where
  "read_text f =
     (case f of
        None \<Rightarrow> Inl FileNotFoundError
      | Some No_permission \<Rightarrow> Inl PermissionError
      | Some Not_utf8 \<Rightarrow> Inl UnicodeDecodeError
      | Some (Text t) \<Rightarrow> Inr t)"

definition json_loads :: "file_text \<Rightarrow> py_error + json" where
  "json_loads t = (case t of Json_text v \<Rightarrow> Inr v | Bad_text \<Rightarrow> Inl JSONDecodeError)"

definition json_dumps :: "json \<Rightarrow> file_text" where
  "json_dumps v = Json_text v"

section \<open>Configuration\<close>

record list_cfg =
  cfg_file :: string
  count :: int

definition LIST_CONFIG :: "(string \<times> list_cfg) list" where
  "LIST_CONFIG =
    [(''hymn'',      \<lparr>cfg_file = ''hymn.csv'',      count = 2\<rparr>),
     (''bread_bro'', \<lparr>cfg_file = ''bread_bro.csv'', count = 2\<rparr>),
     (''bread_sis'', \<lparr>cfg_file = ''bread_sis.csv'', count = 2\<rparr>),
     (''baking'',    \<lparr>cfg_file = ''baking.csv'',    count = 1\<rparr>),
     (''sharing'',   \<lparr>cfg_file = ''sharing.csv'',   count = 1\<rparr>),
     (''pianist'',   \<lparr>cfg_file = ''pianist.csv'',   count = 2\<rparr>),
     (''topic'',     \<lparr>cfg_file = ''topic.csv'',     count = 1\<rparr>),
     (''url'',       \<lparr>cfg_file = ''url.csv'',       count = 1\<rparr>)]"

definition DEFAULT_STATE :: json where
  "DEFAULT_STATE =
    JObj [(''indexes'', JObj (map (\<lambda>k. (k, JInt 0)) (map fst LIST_CONFIG))),
          (''override'', JNull)]"

section \<open>Utility functions\<close>

definition load_csv_list :: "data_dir \<Rightarrow> string \<Rightarrow> py_error + string list" where
  "load_csv_list d key =
    (case map_of LIST_CONFIG key of
       None \<Rightarrow> Inl KeyError
     | Some cfg \<Rightarrow>
        (case csv_files d (cfg_file cfg) of
           None \<Rightarrow> Inr []
         | Some cells \<Rightarrow> Inr cells))"

definition save_state :: "data_dir \<Rightarrow> json \<Rightarrow> data_dir" where
  "save_state d state = d\<lparr>state_file := Some (Text (json_dumps state))\<rparr>"

text \<open>\<^verbatim>\<open>load_state\<close> may create the state file, so it returns the directory too.\<close>

definition load_state :: "data_dir \<Rightarrow> (py_error + json) \<times> data_dir" where
  "load_state d =
    (let d' = (if state_file d = None then save_state d DEFAULT_STATE else d)
     in (bnd (read_text (state_file d')) json_loads, d'))"

text \<open>
  \<^verbatim>\<open>[lst[(start_idx + i) % length] for i in range(n)]\<close>: an empty range yields
  the empty list whatever the list is; otherwise an empty list divides by zero.
  Python's \<^verbatim>\<open>%\<close> with a positive divisor is \<open>mod\<close> on \<open>int\<close>.
\<close>

definition next_items :: "'a list \<Rightarrow> int \<Rightarrow> int \<Rightarrow> py_error + 'a list" where
  "next_items lst start_idx n =
    (let len = int (length lst) in
     if n \<le> 0 then Inr []
     else if len = 0 then Inl ZeroDivisionError
     else Inr (map (\<lambda>i. lst ! nat ((start_idx + int i) mod len)) [0..<nat n]))"

definition advance_index :: "int \<Rightarrow> int \<Rightarrow> int \<Rightarrow> py_error + int" where
  "advance_index current step len =
    (if len = 0 then Inl ZeroDivisionError else Inr ((current + step) mod len))"

section \<open>Rotation\<close>

text \<open>
  \<^verbatim>\<open>state["indexes"][key] = v\<close> mutates the dictionary nested in the state; the
  model rebuilds the state around the updated inner dictionary.
\<close>

definition set_cursor :: "json \<Rightarrow> string \<Rightarrow> json \<Rightarrow> py_error + json" where
  "set_cursor state key v =
    bnd (getitem state ''indexes'') (\<lambda>ix.
    bnd (setitem ix key v) (\<lambda>ix'.
    setitem state ''indexes'' ix'))"

definition get_cursor :: "json \<Rightarrow> string \<Rightarrow> py_error + json" where
  "get_cursor state key = bnd (getitem state ''indexes'') (\<lambda>ix. getitem ix key)"

definition get_list_with_advance ::
  "data_dir \<Rightarrow> string \<Rightarrow> json \<Rightarrow> bool \<Rightarrow> py_error + (string list \<times> json)" where
  "get_list_with_advance d key state advance =
    bnd (load_csv_list d key) (\<lambda>names.
    if names = [] then Inr ([], state)
    else
      bnd (get_cursor state key) (\<lambda>idx_v.
      bnd (case map_of LIST_CONFIG key of None \<Rightarrow> Inl KeyError | Some cfg \<Rightarrow> Inr (count cfg))
        (\<lambda>count.
      bnd (as_index idx_v) (\<lambda>idx.
      bnd (next_items names idx count) (\<lambda>picked.
      if advance then
        bnd (advance_index idx count (int (length names))) (\<lambda>new.
        bnd (set_cursor state key (JInt new)) (\<lambda>state'.
        Inr (picked, state')))
      else Inr (picked, state))))))"

section \<open>Duplicate handling\<close>

text \<open>
  A selected name is a string or, after a substitution from an empty pool, Python's
  \<^verbatim>\<open>None\<close>: selections are lists of \<open>string option\<close>.
  \<^verbatim>\<open>list.index\<close> gives the first position of a value and raises ValueError
  (here: \<open>None\<close>) when there is none.
\<close>

fun list_index :: "'a list \<Rightarrow> 'a \<Rightarrow> nat option" where
  "list_index [] x = None"
| "list_index (y # ys) x = (if y = x then Some 0 else map_option Suc (list_index ys x))"

definition bump_one ::
  "string option list \<Rightarrow> string list \<Rightarrow> string option set \<Rightarrow> py_error + string option" where
  "bump_one name_list names_pool avoid_set =
    (if names_pool = [] then Inr None
     else
      (case name_list of
         [] \<Rightarrow> Inl IndexError
       | first # _ \<Rightarrow>
          (case list_index (map Some names_pool) first of
             None \<Rightarrow> Inl ValueError
           | Some cur \<Rightarrow>
              (case List.find (\<lambda>candidate. candidate \<notin> avoid_set \<and> candidate \<notin> set name_list)
                      (map (\<lambda>step. Some (names_pool ! ((cur + step) mod length names_pool)))
                           [1..<length names_pool]) of
                 Some candidate \<Rightarrow> Inr candidate
               | None \<Rightarrow> Inr first))))"

text \<open>
  The loop \<^verbatim>\<open>for i, person in enumerate(bread_bro)\<close> of \<^verbatim>\<open>resolve_duplicates\<close>,
  which overwrites \<^verbatim>\<open>bread_bro[i]\<close> while iterating: \<open>i\<close> is the position reached
  and \<open>bread_bro\<close> the list as rewritten so far.
\<close>

function bump_bread_bro ::
  "string option list \<Rightarrow> string list \<Rightarrow> nat \<Rightarrow> string option list
     \<Rightarrow> py_error + string option list" where
  "bump_bread_bro hymn pool_bro i bread_bro =
    (if i < length bread_bro then
       (let person = bread_bro ! i in
        if person \<in> set hymn then
          (case bump_one [person] pool_bro (set (hymn @ bread_bro)) of
             Inl e \<Rightarrow> Inl e
           | Inr r \<Rightarrow> bump_bread_bro hymn pool_bro (Suc i) (bread_bro[i := r]))
        else bump_bread_bro hymn pool_bro (Suc i) bread_bro)
     else Inr bread_bro)"
  by pat_completeness auto
termination
  by (relation "measure (\<lambda>(hymn, pool_bro, i, bread_bro). length bread_bro - i)") auto

declare bump_bread_bro.simps [simp del]

text \<open>
  The state dictionary is handed to \<^verbatim>\<open>resolve_duplicates\<close> by reference; the
  model returns it next to the rewritten selections, so that what the call leaves in
  it is explicit.
\<close>

definition resolve_duplicates ::
  "data_dir \<Rightarrow> string option list \<Rightarrow> string option list \<Rightarrow> string option list
     \<Rightarrow> string option list \<Rightarrow> string option list \<Rightarrow> json
     \<Rightarrow> py_error + ((string option list \<times> string option list \<times> string option list
            \<times> string option list \<times> string option list) \<times> json)" where
  "resolve_duplicates d hymn bread_bro sharing topic pianist state =
    bnd (load_csv_list d ''bread_bro'') (\<lambda>pool_bro.
    bnd (bump_bread_bro hymn pool_bro 0 bread_bro) (\<lambda>bread_bro.
    bnd (load_csv_list d ''sharing'') (\<lambda>pool_sharing.
    bnd (if sharing \<noteq> [] \<and> topic \<noteq> [] \<and> sharing ! 0 = topic ! 0
         then bnd (bump_one sharing pool_sharing (set topic)) (\<lambda>r. Inr (sharing[0 := r]))
         else Inr sharing) (\<lambda>sharing.
    bnd (load_csv_list d ''pianist'') (\<lambda>pool_pianist.
    bnd (if length pianist = 2 \<and> pianist ! 0 = pianist ! 1
         then bnd (bump_one [pianist ! 1] pool_pianist (set (take 1 pianist)))
                (\<lambda>r. Inr (pianist[1 := r]))
         else Inr pianist) (\<lambda>pianist.
    Inr ((hymn, bread_bro, sharing, topic, pianist), state)))))))"

section \<open>Special weeks\<close>

text \<open>
  The reading of \<^verbatim>\<open>datetime.now()\<close>, with the fields the program looks at;
  \<open>weekday\<close> is the result of \<^verbatim>\<open>.weekday()\<close>, \<open>0\<close> for Monday.
\<close>

record datetime =
  year :: int
  month :: int
  day :: int
  weekday :: int

definition is_first_monday_odd_month :: "datetime \<Rightarrow> bool" where
  "is_first_monday_odd_month today \<longleftrightarrow>
     month today mod 2 = 1 \<and> 1 \<le> day today \<and> day today \<le> 7 \<and> weekday today = 0"

definition is_special_week :: "json \<Rightarrow> datetime \<Rightarrow> py_error + bool" where
  "is_special_week state today =
    bnd (getitem state ''override'') (\<lambda>override.
    if override = JStr ''special'' then Inr True
    else if override = JStr ''normal'' then Inr False
    else Inr (is_first_monday_odd_month today))"

section \<open>Composing the message\<close>

text \<open>The fixed texts of the message, as UTF-8 bytes.\<close>

definition newline :: string where
  "newline = [CHR 0x0A]"

definition fullwidth_space :: string where \<comment> \<open>U+3000\<close>
  "fullwidth_space = [CHR 0xE3, CHR 0x80, CHR 0x80]"

definition label_hymn :: string where \<comment> \<open>U+5E36 U+8A69 U+6B4C U+FF1A\<close>
  "label_hymn = [CHR 0xE5, CHR 0xB8, CHR 0xB6, CHR 0xE8, CHR 0xA9, CHR 0xA9,
                 CHR 0xE6, CHR 0xAD, CHR 0x8C, CHR 0xEF, CHR 0xBC, CHR 0x9A]"

definition label_bread_bro :: string where
  \<comment> \<open>U+9905 U+676F U+FF08 U+5F1F U+5144 U+FF09 U+FF1A\<close>
  "label_bread_bro = [CHR 0xE9, CHR 0xA4, CHR 0x85, CHR 0xE6, CHR 0x9D, CHR 0xAF,
                      CHR 0xEF, CHR 0xBC, CHR 0x88, CHR 0xE5, CHR 0xBC, CHR 0x9F,
                      CHR 0xE5, CHR 0x85, CHR 0x84, CHR 0xEF, CHR 0xBC, CHR 0x89,
                      CHR 0xEF, CHR 0xBC, CHR 0x9A]"

definition label_bread_sis :: string where
  \<comment> \<open>U+9905 U+676F U+FF08 U+59CA U+59B9 U+FF09 U+FF1A\<close>
  "label_bread_sis = [CHR 0xE9, CHR 0xA4, CHR 0x85, CHR 0xE6, CHR 0x9D, CHR 0xAF,
                      CHR 0xEF, CHR 0xBC, CHR 0x88, CHR 0xE5, CHR 0xA7, CHR 0x8A,
                      CHR 0xE5, CHR 0xA6, CHR 0xB9, CHR 0xEF, CHR 0xBC, CHR 0x89,
                      CHR 0xEF, CHR 0xBC, CHR 0x9A]"

definition label_baking :: string where \<comment> \<open>U+505A U+9905 U+FF1A\<close>
  "label_baking = [CHR 0xE5, CHR 0x81, CHR 0x9A, CHR 0xE9, CHR 0xA4, CHR 0x85,
                   CHR 0xEF, CHR 0xBC, CHR 0x9A]"

definition label_sharing :: string where \<comment> \<open>U+5206 U+4EAB U+FF1A\<close>
  "label_sharing = [CHR 0xE5, CHR 0x88, CHR 0x86, CHR 0xE4, CHR 0xBA, CHR 0xAB,
                    CHR 0xEF, CHR 0xBC, CHR 0x9A]"

definition label_pianist :: string where \<comment> \<open>U+53F8 U+7434 U+FF1A\<close>
  "label_pianist = [CHR 0xE5, CHR 0x8F, CHR 0xB8, CHR 0xE7, CHR 0x90, CHR 0xB4,
                    CHR 0xEF, CHR 0xBC, CHR 0x9A]"

definition label_topic :: string where \<comment> \<open>U+5C08 U+984C U+5206 U+4EAB U+FF1A\<close>
  "label_topic = [CHR 0xE5, CHR 0xB0, CHR 0x88, CHR 0xE9, CHR 0xA1, CHR 0x8C,
                  CHR 0xE5, CHR 0x88, CHR 0x86, CHR 0xE4, CHR 0xBA, CHR 0xAB,
                  CHR 0xEF, CHR 0xBC, CHR 0x9A]"

definition label_url :: string where \<comment> \<open>U+984C U+76EE U+FF1A\<close>
  "label_url = [CHR 0xE9, CHR 0xA1, CHR 0x8C, CHR 0xE7, CHR 0x9B, CHR 0xAE,
                CHR 0xEF, CHR 0xBC, CHR 0x9A]"

definition mark_sat :: string where \<comment> \<open>U+FF08 U+516D U+FF09, "(Sat)"\<close>
  "mark_sat = [CHR 0xEF, CHR 0xBC, CHR 0x88, CHR 0xE5, CHR 0x85, CHR 0xAD,
               CHR 0xEF, CHR 0xBC, CHR 0x89]"

definition mark_sun :: string where \<comment> \<open>U+FF08 U+65E5 U+FF09, "(Sun)"\<close>
  "mark_sun = [CHR 0xEF, CHR 0xBC, CHR 0x88, CHR 0xE6, CHR 0x97, CHR 0xA5,
               CHR 0xEF, CHR 0xBC, CHR 0x89]"

text \<open>A value inside an f-string: \<^verbatim>\<open>None\<close> prints as the word.\<close>

fun fmt :: "string option \<Rightarrow> string" where
  "fmt None = ''None''"
| "fmt (Some s) = s"

text \<open>\<^verbatim>\<open>{xs[0] if xs else ''}\<close>\<close>

fun first_or_empty :: "string option list \<Rightarrow> string" where
  "first_or_empty [] = []"
| "first_or_empty (x # xs) = fmt x"

text \<open>\<^verbatim>\<open>sep.join(xs)\<close>, which raises TypeError on an item that is not a string.\<close>

fun join_str :: "string \<Rightarrow> string list \<Rightarrow> string" where
  "join_str sep [] = []"
| "join_str sep [x] = x"
| "join_str sep (x # y # ys) = x @ sep @ join_str sep (y # ys)"

definition py_join :: "string \<Rightarrow> string option list \<Rightarrow> py_error + string" where
  "py_join sep xs = (if None \<in> set xs then Inl TypeError else Inr (join_str sep (map fmt xs)))"

text \<open>The eight calls at the head of \<^verbatim>\<open>compose_message\<close>, in their order.\<close>

definition rotate_roles ::
  "data_dir \<Rightarrow> json \<Rightarrow> bool
     \<Rightarrow> py_error + ((string list \<times> string list \<times> string list \<times> string list
            \<times> string list \<times> string list \<times> string list \<times> string list) \<times> json)" where
  "rotate_roles d state advance =
    bnd (get_list_with_advance d ''hymn'' state advance) (\<lambda>(hymn, state).
    bnd (get_list_with_advance d ''bread_bro'' state advance) (\<lambda>(bread_bro, state).
    bnd (get_list_with_advance d ''bread_sis'' state advance) (\<lambda>(bread_sis, state).
    bnd (get_list_with_advance d ''baking'' state advance) (\<lambda>(baking, state).
    bnd (get_list_with_advance d ''sharing'' state advance) (\<lambda>(sharing, state).
    bnd (get_list_with_advance d ''pianist'' state advance) (\<lambda>(pianist, state).
    bnd (get_list_with_advance d ''topic'' state advance) (\<lambda>(topic, state).
    bnd (get_list_with_advance d ''url'' state advance) (\<lambda>(url, state).
    Inr ((hymn, bread_bro, bread_sis, baking, sharing, pianist, topic, url), state)))))))))"

text \<open>The text of a special week.\<close>

definition special_msg :: "string option list \<Rightarrow> string option list \<Rightarrow> string" where
  "special_msg sharing pianist =
     label_sharing @ first_or_empty sharing @ newline
     @ label_pianist @ mark_sat @ first_or_empty pianist"

text \<open>The text of a normal week.\<close>

definition normal_msg ::
  "string option list \<Rightarrow> string option list \<Rightarrow> string option list \<Rightarrow> string option list
     \<Rightarrow> string option list \<Rightarrow> string option list \<Rightarrow> string option list
     \<Rightarrow> string option list \<Rightarrow> py_error + string" where
  "normal_msg hymn bread_bro bread_sis baking sharing pianist topic url =
    (let pianist_text =
       (if length pianist = 2
        then mark_sat @ fmt (pianist ! 0) @ fullwidth_space @ mark_sun @ fmt (pianist ! 1)
        else [])
     in
     bnd (py_join fullwidth_space hymn) (\<lambda>hymn_text.
     bnd (py_join fullwidth_space bread_bro) (\<lambda>bread_bro_text.
     bnd (py_join fullwidth_space bread_sis) (\<lambda>bread_sis_text.
     Inr (label_hymn @ hymn_text @ newline
          @ label_bread_bro @ bread_bro_text @ newline
          @ label_bread_sis @ bread_sis_text @ newline
          @ label_baking @ first_or_empty baking @ newline
          @ label_sharing @ first_or_empty sharing @ newline
          @ label_pianist @ pianist_text @ newline
          @ label_topic @ first_or_empty topic @ newline
          @ label_url @ first_or_empty url)))))"

definition compose_message ::
  "data_dir \<Rightarrow> json \<Rightarrow> bool \<Rightarrow> datetime \<Rightarrow> py_error + (string \<times> json)" where
  "compose_message d state advance today =
    bnd (rotate_roles d state advance)
      (\<lambda>((hymn, bread_bro, bread_sis, baking, sharing, pianist, topic, url), state).
    bnd (resolve_duplicates d (map Some hymn) (map Some bread_bro) (map Some sharing)
           (map Some topic) (map Some pianist) state)
      (\<lambda>((hymn, bread_bro, sharing, topic, pianist), state).
    bnd (is_special_week state today) (\<lambda>special.
    if special then Inr (special_msg sharing pianist, state)
    else
      bnd (normal_msg hymn bread_bro (map Some bread_sis) (map Some baking) sharing pianist
             topic (map Some url)) (\<lambda>msg.
      Inr (msg, state)))))"

section \<open>The status command\<close>

text \<open>
  The \<^verbatim>\<open>!status\<close> branch of \<^verbatim>\<open>handle_message\<close>: the text it replies with,
  and the data directory it leaves.
\<close>

definition status_reply :: "data_dir \<Rightarrow> datetime \<Rightarrow> (py_error + string) \<times> data_dir" where
  "status_reply d today =
    (case load_state d of
       (Inl e, d') \<Rightarrow> (Inl e, d')
     | (Inr state, d') \<Rightarrow>
         (bnd (is_special_week state today) (\<lambda>special.
            Inr (''Current mode: '' @ (if special then ''Special'' else ''Normal''))), d'))"

section \<open>A sample data directory\<close>

text \<open>
  Rosters on which the rotation and every substitution rule can be run: the first
  bread-serving brother also leads a hymn, sharing and topic start with the same name,
  the pianist roster has a single name, and the baking roster is missing.
\<close>

definition sample_dir :: data_dir where
  "sample_dir =
    \<lparr>csv_files = map_of
       [(''hymn.csv'', [''Ann'', ''Ben'', ''Cal'']),
        (''bread_bro.csv'', [''Ben'', ''Cal'', ''Dan'', ''Eli'']),
        (''bread_sis.csv'', [''Joy'', ''Kim'', ''Liz'']),
        (''sharing.csv'', [''Fay'', ''Gus'']),
        (''pianist.csv'', [''Ivy'']),
        (''topic.csv'', [''Fay'', ''Hal'']),
        (''url.csv'', [''u1'', ''u2''])],
     state_file = None,
     this_week_file = None\<rparr>"

text \<open>The same directory with a baking roster: no roster is empty.\<close>

definition full_dir :: data_dir where
  "full_dir = sample_dir\<lparr>csv_files := (csv_files sample_dir)(''baking.csv'' \<mapsto> [''Mia''])\<rparr>"

text \<open>Monday 3 March 2025, a special week, and Tuesday 4 March 2025, a normal one.\<close>

definition first_monday :: datetime where
  "first_monday = \<lparr>year = 2025, month = 3, day = 3, weekday = 0\<rparr>"

definition next_tuesday :: datetime where
  "next_tuesday = \<lparr>year = 2025, month = 3, day = 4, weekday = 1\<rparr>"

text \<open>The state the sample directories are in after one cycle.\<close>

definition sample_state_after :: json where
  "sample_state_after =
     JObj [(''indexes'',
            JObj [(''hymn'', JInt 2), (''bread_bro'', JInt 2), (''bread_sis'', JInt 2),
                  (''baking'', JInt 0), (''sharing'', JInt 1), (''pianist'', JInt 0),
                  (''topic'', JInt 1), (''url'', JInt 1)]),
           (''override'', JNull)]"

section \<open>Repeated rotation\<close>

text \<open>
  \<open>k\<close> successive advancing calls of \<^verbatim>\<open>get_list_with_advance\<close> for one role, each
  on the state the previous one left, and the cursor the role has afterwards.
\<close>

fun advance_times :: "data_dir \<Rightarrow> string \<Rightarrow> nat \<Rightarrow> json \<Rightarrow> py_error + json" where
  "advance_times d key 0 state = Inr state"
| "advance_times d key (Suc k) state =
     bnd (get_list_with_advance d key state True) (\<lambda>(picked, state').
     advance_times d key k state')"

definition cursor_after :: "data_dir \<Rightarrow> string \<Rightarrow> nat \<Rightarrow> json \<Rightarrow> py_error + json" where
  "cursor_after d key k state =
     bnd (advance_times d key k state) (\<lambda>state'. get_cursor state' key)"

text \<open>The same for \<^verbatim>\<open>advance_index\<close> alone, with any step and length.\<close>

fun advance_index_times :: "nat \<Rightarrow> int \<Rightarrow> int \<Rightarrow> int \<Rightarrow> py_error + int" where
  "advance_index_times 0 current step len = Inr current"
| "advance_index_times (Suc k) current step len =
     bnd (advance_index current step len) (\<lambda>new. advance_index_times k new step len)"

text \<open>The number \<open>ceil(L/n)\<close> of the fairness property, for \<open>n > 0\<close>.\<close>

definition ceil_div :: "int \<Rightarrow> int \<Rightarrow> int" where
  "ceil_div L n = (L + n - 1) div n"

section \<open>Describing a cycle\<close>

definition succeeds :: "py_error + 'a \<Rightarrow> bool" where
  "succeeds m = (case m of Inl e \<Rightarrow> False | Inr x \<Rightarrow> True)"

text \<open>
  A state that \<^verbatim>\<open>compose_message\<close> can read: it has an override entry and, for every
  role whose roster is not empty, a cursor that is an integer.
\<close>

definition cursors_ok :: "data_dir \<Rightarrow> json \<Rightarrow> bool" where
  "cursors_ok d state \<longleftrightarrow>
     list_all (\<lambda>key. load_csv_list d key = Inr []
                  \<or> succeeds (bnd (get_cursor state key) as_index))
        (map fst LIST_CONFIG)"

definition state_ok :: "data_dir \<Rightarrow> json \<Rightarrow> bool" where
  "state_ok d state \<longleftrightarrow> succeeds (getitem state ''override'') \<and> cursors_ok d state"

text \<open>The roster of a role: what \<^verbatim>\<open>load_csv_list\<close> returns for its key.\<close>

definition roster :: "data_dir \<Rightarrow> string \<Rightarrow> string list" where
  "roster d key = (case load_csv_list d key of Inl e \<Rightarrow> [] | Inr names \<Rightarrow> names)"

text \<open>The cursor a role with a non-empty roster has after one advance.\<close>

definition rotated_cursor :: "data_dir \<Rightarrow> json \<Rightarrow> string \<Rightarrow> py_error + json" where
  "rotated_cursor d state key =
     bnd (load_csv_list d key) (\<lambda>names.
     bnd (get_cursor state key) (\<lambda>v.
     bnd (as_index v) (\<lambda>idx.
     bnd (case map_of LIST_CONFIG key of None \<Rightarrow> Inl KeyError | Some cfg \<Rightarrow> Inr (count cfg))
       (\<lambda>n.
     Inr (JInt ((idx + n) mod int (length names)))))))"

text \<open>
  The message as the specification describes it, line by line: a label followed by a
  value. Several names are joined with a full-width space, the two pianists are shown
  as a Saturday and Sunday pair when there are exactly two of them, and a role without
  a selection has the empty value.
\<close>

definition joined :: "string option list \<Rightarrow> string" where
  "joined xs = join_str fullwidth_space (map fmt xs)"

definition pianist_pair :: "string option list \<Rightarrow> string" where
  "pianist_pair pianist =
     (if length pianist = 2
      then mark_sat @ fmt (pianist ! 0) @ fullwidth_space @ mark_sun @ fmt (pianist ! 1)
      else [])"

definition special_lines :: "string option list \<Rightarrow> string option list \<Rightarrow> string list" where
  "special_lines sharing pianist =
     [label_sharing @ first_or_empty sharing,
      label_pianist @ mark_sat @ first_or_empty pianist]"

definition normal_lines ::
  "string option list \<Rightarrow> string option list \<Rightarrow> string option list \<Rightarrow> string option list
     \<Rightarrow> string option list \<Rightarrow> string option list \<Rightarrow> string option list
     \<Rightarrow> string option list \<Rightarrow> string list" where
  "normal_lines hymn bread_bro bread_sis baking sharing pianist topic url =
     [label_hymn @ joined hymn,
      label_bread_bro @ joined bread_bro,
      label_bread_sis @ joined bread_sis,
      label_baking @ first_or_empty baking,
      label_sharing @ first_or_empty sharing,
      label_pianist @ pianist_pair pianist,
      label_topic @ first_or_empty topic,
      label_url @ first_or_empty url]"

text \<open>The label of each role's line, in the order of the lines.\<close>

definition role_labels :: "(string \<times> string) list" where
  "role_labels =
     [(''hymn'', label_hymn), (''bread_bro'', label_bread_bro),
      (''bread_sis'', label_bread_sis), (''baking'', label_baking),
      (''sharing'', label_sharing), (''pianist'', label_pianist),
      (''topic'', label_topic), (''url'', label_url)]"

section \<open>Basic facts\<close>

lemma bnd_Inr [simp]: "bnd (Inr x) f = f x"
  by (simp add: bnd_def)

lemma bnd_Inl [simp]: "bnd (Inl e) f = Inl e"
  by (simp add: bnd_def)

lemma bnd_eq_Inr: "bnd m f = Inr y \<longleftrightarrow> (\<exists>x. m = Inr x \<and> f x = Inr y)"
  by (cases m) simp_all

lemma getitem_Inr: "getitem j k = Inr v \<longleftrightarrow> (\<exists>kvs. j = JObj kvs \<and> map_of kvs k = Some v)"
  by (cases j) (auto split: option.splits)

lemma get_cursor_Inr:
  "get_cursor state key = Inr v \<longleftrightarrow>
     (\<exists>kvs ixs. state = JObj kvs \<and> map_of kvs ''indexes'' = Some (JObj ixs)
        \<and> map_of ixs key = Some v)"
  by (auto simp: get_cursor_def bnd_eq_Inr getitem_Inr)

text \<open>Storing a cursor touches that cursor and nothing else in the state.\<close>

lemma set_cursor_ok:
  assumes "get_cursor state key = Inr v"
  shows "\<exists>state'. set_cursor state key w = Inr state'
     \<and> get_cursor state' key = Inr w
     \<and> (\<forall>k. k \<noteq> key \<longrightarrow> get_cursor state' k = get_cursor state k)
     \<and> getitem state' ''override'' = getitem state ''override''"
proof -
  from assms obtain kvs ixs where st: "state = JObj kvs"
    and ix: "map_of kvs ''indexes'' = Some (JObj ixs)" and "map_of ixs key = Some v"
    by (auto simp: get_cursor_Inr)
  let ?st' = "JObj (AList.update ''indexes'' (JObj (AList.update key w ixs)) kvs)"
  have "set_cursor state key w = Inr ?st'"
    by (simp add: set_cursor_def st ix)
  moreover have "get_cursor ?st' key = Inr w"
    by (simp add: get_cursor_def update_conv')
  moreover have "\<forall>k. k \<noteq> key \<longrightarrow> get_cursor ?st' k = get_cursor state k"
    by (simp add: get_cursor_def update_conv' st ix)
  moreover have "getitem ?st' ''override'' = getitem state ''override''"
    by (simp add: update_conv' st)
  ultimately show ?thesis by blast
qed

lemma count_cases:
  "map_of LIST_CONFIG key = Some cfg \<Longrightarrow> count cfg = 1 \<or> count cfg = 2"
  by (auto simp: LIST_CONFIG_def split: if_splits)

lemma next_items_Inr:
  "lst \<noteq> [] \<Longrightarrow> next_items lst start_idx n =
      Inr (map (\<lambda>i. lst ! nat ((start_idx + int i) mod int (length lst))) [0..<nat n])"
  by (auto simp: next_items_def Let_def)

lemma pick_in_range:
  "lst \<noteq> [] \<Longrightarrow> nat ((c + int i) mod int (length lst)) < length lst"
  by (simp add: nat_less_iff)

section \<open>The rotator\<close>

text \<open>
  Claim C1. On a non-empty roster of length \<open>L\<close>, for a role of the configuration
  with count \<open>n\<close> and any integer cursor, an advancing call of
  \<^verbatim>\<open>get_list_with_advance\<close> returns exactly \<open>n\<close> names, all from the roster, the
  \<open>i\<close>-th being the roster entry at \<open>(cursor + i) mod L\<close> (so names repeat when
  \<open>n > L\<close>), and stores \<open>(cursor + n) mod L\<close> as the role's cursor.
\<close>

theorem get_list_with_advance_rotates:
  assumes names: "load_csv_list d key = Inr names" and ne: "names \<noteq> []"
    and cfg: "map_of LIST_CONFIG key = Some cfg"
    and cur: "get_cursor state key = Inr (JInt cursor)"
  shows "\<exists>picked state'.
      get_list_with_advance d key state True = Inr (picked, state')
    \<and> int (length picked) = count cfg
    \<and> set picked \<subseteq> set names
    \<and> (\<forall>i < length picked. picked ! i = names ! nat ((cursor + int i) mod int (length names)))
    \<and> get_cursor state' key = Inr (JInt ((cursor + count cfg) mod int (length names)))"
proof -
  let ?L = "int (length names)"
  let ?picked = "map (\<lambda>i. names ! nat ((cursor + int i) mod ?L)) [0..<nat (count cfg)]"
  let ?new = "(cursor + count cfg) mod ?L"
  from set_cursor_ok [OF cur, of "JInt ?new"] obtain state'
    where set: "set_cursor state key (JInt ?new) = Inr state'"
      and get: "get_cursor state' key = Inr (JInt ?new)" by blast
  have pos: "0 < count cfg" using count_cases [OF cfg] by auto
  have run: "get_list_with_advance d key state True = Inr (?picked, state')"
    using ne by (simp add: get_list_with_advance_def names cur cfg next_items_Inr
        advance_index_def set)
  have len: "int (length ?picked) = count cfg" using pos by simp
  have mem: "set ?picked \<subseteq> set names"
    using ne by (auto simp: pick_in_range)
  have nth: "\<forall>i < length ?picked. ?picked ! i = names ! nat ((cursor + int i) mod ?L)"
    by simp
  from run len mem nth get show ?thesis by blast
qed

theorem get_list_with_advance_rotates_witness:
  "\<exists>picked state'.
      get_list_with_advance sample_dir ''pianist''
          (JObj [(''indexes'', JObj [(''pianist'', JInt (- 5))])]) True
         = Inr (picked, state')
    \<and> int (length picked) = 2
    \<and> set picked \<subseteq> {''Ivy''}
    \<and> (\<forall>i < length picked. picked ! i = [''Ivy''] ! nat ((- 5 + int i) mod 1))
    \<and> get_cursor state' ''pianist'' = Inr (JInt 0)"
  using get_list_with_advance_rotates [of sample_dir "''pianist''" "[''Ivy'']"
      "\<lparr>cfg_file = ''pianist.csv'', count = 2\<rparr>"
      "JObj [(''indexes'', JObj [(''pianist'', JInt (- 5))])]" "- 5"]
  by (simp add: load_csv_list_def LIST_CONFIG_def sample_dir_def get_cursor_def)

section \<open>Rotation fairness\<close>

lemma get_list_with_advance_step:
  assumes names: "load_csv_list d key = Inr names" and ne: "names \<noteq> []"
    and cfg: "map_of LIST_CONFIG key = Some cfg"
    and cur: "get_cursor state key = Inr (JInt c)"
  shows "\<exists>picked state'. get_list_with_advance d key state True = Inr (picked, state')
    \<and> get_cursor state' key = Inr (JInt ((c + count cfg) mod int (length names)))"
proof -
  let ?new = "(c + count cfg) mod int (length names)"
  from set_cursor_ok [OF cur, of "JInt ?new"] obtain state'
    where "set_cursor state key (JInt ?new) = Inr state'"
      and "get_cursor state' key = Inr (JInt ?new)" by blast
  then show ?thesis
    using ne by (simp add: get_list_with_advance_def names cur cfg next_items_Inr
        advance_index_def)
qed

lemma cursor_after_formula:
  assumes names: "load_csv_list d key = Inr names" and ne: "names \<noteq> []"
    and cfg: "map_of LIST_CONFIG key = Some cfg"
  shows "get_cursor state key = Inr (JInt c) \<Longrightarrow> 0 \<le> c \<Longrightarrow> c < int (length names) \<Longrightarrow>
     cursor_after d key k state = Inr (JInt ((c + int k * count cfg) mod int (length names)))"
proof (induction k arbitrary: state c)
  case 0
  then show ?case by (simp add: cursor_after_def)
next
  case (Suc k)
  let ?L = "int (length names)"
  let ?c1 = "(c + count cfg) mod ?L"
  from get_list_with_advance_step [OF names ne cfg Suc.prems(1)] obtain picked state1
    where run: "get_list_with_advance d key state True = Inr (picked, state1)"
      and c1: "get_cursor state1 key = Inr (JInt ?c1)" by blast
  have L: "0 < ?L" using ne by simp
  have "cursor_after d key k state1 = Inr (JInt ((?c1 + int k * count cfg) mod ?L))"
    using Suc.IH [OF c1] L by simp
  moreover have "(?c1 + int k * count cfg) mod ?L = (c + count cfg + int k * count cfg) mod ?L"
    by (simp add: mod_add_left_eq)
  moreover have "c + count cfg + int k * count cfg = c + int (Suc k) * count cfg"
    by (simp add: algebra_simps)
  moreover have "cursor_after d key (Suc k) state = cursor_after d key k state1"
    by (simp add: cursor_after_def run)
  ultimately show ?case by simp
qed

lemma returns_iff:
  fixes c L m :: int
  assumes "0 \<le> c" "c < L"
  shows "(c + m) mod L = c \<longleftrightarrow> L dvd m"
proof -
  have "(c + m) mod L = c \<longleftrightarrow> (c + m) mod L = c mod L" using assms by simp
  also have "\<dots> \<longleftrightarrow> L dvd (c + m) - c" by (rule mod_eq_dvd_iff)
  finally show ?thesis by simp
qed

lemma advance_index_times_formula:
  "0 < L \<Longrightarrow> 0 \<le> c \<Longrightarrow> c < L \<Longrightarrow>
     advance_index_times k c n L = Inr ((c + int k * n) mod L)"
proof (induction k arbitrary: c)
  case 0
  then show ?case by simp
next
  case (Suc k)
  let ?c1 = "(c + n) mod L"
  have "advance_index_times (Suc k) c n L = advance_index_times k ?c1 n L"
    using Suc.prems by (simp add: advance_index_def)
  also have "\<dots> = Inr ((?c1 + int k * n) mod L)"
    using Suc.prems by (intro Suc.IH) simp_all
  also have "(?c1 + int k * n) mod L = (c + n + int k * n) mod L"
    by (simp add: mod_add_left_eq)
  also have "c + n + int k * n = c + int (Suc k) * n"
    by (simp add: algebra_simps)
  finally show ?case .
qed

lemma ceil_div_nonneg: "0 < L \<Longrightarrow> 0 < n \<Longrightarrow> 0 \<le> ceil_div L n"
  unfolding ceil_div_def by (simp add: pos_imp_zdiv_nonneg_iff)

lemma ceil_div_exact:
  assumes "0 < n" and "n dvd L"
  shows "n * ceil_div L n = L"
proof -
  from assms obtain q where q: "L = n * q" by (auto simp: dvd_def)
  have "(n * q + (n - 1)) div n = q + (n - 1) div n"
    using assms by simp
  moreover have "(n - 1) div n = 0"
    using assms by (simp add: div_pos_pos_trivial)
  moreover have "L + n - 1 = n * q + (n - 1)"
    using q by simp
  ultimately have "(L + n - 1) div n = q"
    by (simp only: add_0_right)
  then show ?thesis
    by (simp only: ceil_div_def q)
qed

text \<open>
  Claim C2 (as the code has it). Take a step \<open>n \<ge> 1\<close>, a length \<open>L \<ge> 1\<close> and a
  cursor \<open>c\<close> with \<open>0 \<le> c < L\<close>. After \<open>k\<close> successive advances the cursor is
  \<open>(c + k * n) mod L\<close>; after \<open>ceil(L/n)\<close> of them it is back at \<open>c\<close> exactly when
  \<open>L\<close> divides \<open>n * ceil(L/n)\<close>, which is the case whenever \<open>n\<close> divides \<open>L\<close>. The
  same holds for the advancing calls of a configured role on its non-empty roster,
  with the role's count for \<open>n\<close>.
\<close>

theorem rotation_returns_iff:
  assumes n: "1 \<le> n" and lo: "0 \<le> c" and hi: "c < L"
  shows "(\<forall>k. advance_index_times k c n L = Inr ((c + int k * n) mod L))
    \<and> (advance_index_times (nat (ceil_div L n)) c n L = Inr c \<longleftrightarrow> L dvd n * ceil_div L n)
    \<and> (n dvd L \<longrightarrow> advance_index_times (nat (ceil_div L n)) c n L = Inr c)
    \<and> (load_csv_list d key = Inr names \<and> int (length names) = L
        \<and> map_of LIST_CONFIG key = Some cfg \<and> count cfg = n
        \<and> get_cursor state key = Inr (JInt c) \<longrightarrow>
          (\<forall>k. cursor_after d key k state = Inr (JInt ((c + int k * n) mod L)))
        \<and> (cursor_after d key (nat (ceil_div L n)) state = Inr (JInt c)
             \<longleftrightarrow> L dvd n * ceil_div L n)
        \<and> (n dvd L \<longrightarrow> cursor_after d key (nat (ceil_div L n)) state = Inr (JInt c)))"
proof -
  have L: "0 < L" using lo hi by simp
  have n0: "0 < n" using n by simp
  let ?k = "ceil_div L n"
  have k: "0 \<le> ?k" by (rule ceil_div_nonneg [OF L n0])
  have ret: "(c + int (nat ?k) * n) mod L = c \<longleftrightarrow> L dvd n * ?k"
    using k by (simp add: returns_iff [OF lo hi] mult.commute)
  have exact: "L dvd n * ?k" if "n dvd L"
    using ceil_div_exact [OF n0 that] by simp
  have f: "\<And>k. advance_index_times k c n L = Inr ((c + int k * n) mod L)"
    by (rule advance_index_times_formula [OF L lo hi])
  have g: "\<And>k. cursor_after d key k state = Inr (JInt ((c + int k * n) mod L))"
    if "load_csv_list d key = Inr names" "int (length names) = L"
      "map_of LIST_CONFIG key = Some cfg" "count cfg = n"
      "get_cursor state key = Inr (JInt c)"
  proof -
    from that(2) L have ne: "names \<noteq> []" by auto
    from cursor_after_formula [OF that(1) ne that(3) that(5)] lo hi that(2,4)
    show "\<And>k. cursor_after d key k state = Inr (JInt ((c + int k * n) mod L))"
      by simp
  qed
  show ?thesis
    using f g ret exact by simp
qed

lemma sample_rosters:
  "load_csv_list sample_dir ''hymn'' = Inr [''Ann'', ''Ben'', ''Cal'']"
  "load_csv_list sample_dir ''bread_bro'' = Inr [''Ben'', ''Cal'', ''Dan'', ''Eli'']"
  "load_csv_list sample_dir ''bread_sis'' = Inr [''Joy'', ''Kim'', ''Liz'']"
  "load_csv_list sample_dir ''baking'' = Inr []"
  "load_csv_list sample_dir ''sharing'' = Inr [''Fay'', ''Gus'']"
  "load_csv_list sample_dir ''pianist'' = Inr [''Ivy'']"
  "load_csv_list sample_dir ''topic'' = Inr [''Fay'', ''Hal'']"
  "load_csv_list sample_dir ''url'' = Inr [''u1'', ''u2'']"
  by (simp_all add: load_csv_list_def LIST_CONFIG_def sample_dir_def)

theorem rotation_returns_iff_witness:
  "(\<forall>k. advance_index_times k 0 2 4 = Inr ((0 + int k * 2) mod 4))
   \<and> advance_index_times (nat (ceil_div 4 2)) 0 2 4 = Inr 0
   \<and> (\<forall>k. cursor_after sample_dir ''bread_bro'' k DEFAULT_STATE
             = Inr (JInt ((0 + int k * 2) mod 4)))
   \<and> cursor_after sample_dir ''bread_bro'' (nat (ceil_div 4 2)) DEFAULT_STATE = Inr (JInt 0)"
  using rotation_returns_iff [of 2 0 4 sample_dir "''bread_bro''"
      "[''Ben'', ''Cal'', ''Dan'', ''Eli'']"
      "\<lparr>cfg_file = ''bread_bro.csv'', count = 2\<rparr>" DEFAULT_STATE]
  by (simp add: sample_rosters LIST_CONFIG_def DEFAULT_STATE_def get_cursor_def ceil_div_def)

text \<open>
  With the three-name hymn roster and count 2, \<open>ceil(3/2) = 2\<close> advancing calls move
  the cursor from 0 to 1: the rotation is not back at its start.
\<close>

theorem rotation_fairness_counterexample:
  "load_csv_list sample_dir ''hymn'' = Inr [''Ann'', ''Ben'', ''Cal'']
   \<and> map_of LIST_CONFIG ''hymn'' = Some \<lparr>cfg_file = ''hymn.csv'', count = 2\<rparr>
   \<and> get_cursor DEFAULT_STATE ''hymn'' = Inr (JInt 0)
   \<and> cursor_after sample_dir ''hymn'' (nat (ceil_div 3 2)) DEFAULT_STATE = Inr (JInt 1)
   \<and> advance_index_times (nat (ceil_div 3 2)) 0 2 3 = Inr 1"
  by (simp add: sample_rosters LIST_CONFIG_def DEFAULT_STATE_def get_cursor_def
      cursor_after_def ceil_div_def eval_nat_numeral get_list_with_advance_def
      next_items_def advance_index_def set_cursor_def)

section \<open>Substitution\<close>

lemma list_index_map_Some: "list_index (map Some xs) (Some x) = list_index xs x"
  by (induction xs) simp_all

lemma list_index_first:
  "x \<in> set xs \<Longrightarrow> \<exists>cur. list_index xs x = Some cur \<and> cur < length xs \<and> xs ! cur = x
      \<and> (\<forall>j<cur. xs ! j \<noteq> x)"
proof (induction xs)
  case Nil
  then show ?case by simp
next
  case (Cons y ys)
  show ?case
  proof (cases "y = x")
    case True
    then show ?thesis by simp
  next
    case False
    with Cons obtain cur where c: "list_index ys x = Some cur" "cur < length ys" "ys ! cur = x"
      "\<forall>j<cur. ys ! j \<noteq> x" by auto
    have "\<forall>j<Suc cur. (y # ys) ! j \<noteq> x"
      using False c(4) by (auto simp: nth_Cons split: nat.splits)
    with False c show ?thesis by simp
  qed
qed

lemma find_map_Some:
  "List.find P (map Some xs) = map_option Some (List.find (\<lambda>c. P (Some c)) xs)"
  by (induction xs) simp_all

lemma scan_order:
  assumes "cur < length pool"
  shows "map (\<lambda>step. pool ! ((cur + step) mod length pool)) [1..<length pool]
           = drop (Suc cur) pool @ take cur pool"
proof (rule nth_equalityI)
  show "length (map (\<lambda>step. pool ! ((cur + step) mod length pool)) [1..<length pool])
          = length (drop (Suc cur) pool @ take cur pool)"
    using assms by simp
next
  fix i
  assume "i < length (map (\<lambda>step. pool ! ((cur + step) mod length pool)) [1..<length pool])"
  then have i: "i < length pool - 1" by simp
  show "map (\<lambda>step. pool ! ((cur + step) mod length pool)) [1..<length pool] ! i
          = (drop (Suc cur) pool @ take cur pool) ! i"
  proof (cases "Suc cur + i < length pool")
    case True
    then have "i < length pool - Suc cur" by arith
    with True show ?thesis using i by (simp add: nth_append)
  next
    case False
    let ?j = "i - (length pool - Suc cur)"
    have ge: "\<not> i < length pool - Suc cur" using False by arith
    have lt: "?j < cur" using False i assms by arith
    have eq: "cur + (1 + i) = ?j + length pool" using False i assms by arith
    have "(?j + length pool) mod length pool = ?j"
      using lt assms by simp
    then have m: "(cur + (1 + i)) mod length pool = ?j"
      by (simp only: eq)
    have "map (\<lambda>step. pool ! ((cur + step) mod length pool)) [1..<length pool] ! i
            = pool ! ((cur + (1 + i)) mod length pool)"
      using i by simp
    moreover have "(drop (Suc cur) pool @ take cur pool) ! i = pool ! ?j"
      using ge lt assms by (simp add: nth_append)
    ultimately show ?thesis by (simp only: m)
  qed
qed

lemma bump_one_eq:
  assumes c: "list_index names_pool name = Some cur" and lt: "cur < length names_pool"
  shows "bump_one (Some name # rest) names_pool avoid_set =
          Inr (case List.find (\<lambda>c. Some c \<notin> avoid_set \<and> Some c \<notin> set (Some name # rest))
                      (drop (Suc cur) names_pool @ take cur names_pool) of
                 Some candidate \<Rightarrow> Some candidate
               | None \<Rightarrow> Some name)"
proof -
  have ne: "names_pool \<noteq> []" using lt by auto
  have scan: "map (\<lambda>step. Some (names_pool ! ((cur + step) mod length names_pool)))
                [1..<length names_pool]
              = map Some (drop (Suc cur) names_pool @ take cur names_pool)"
  proof -
    have "map (\<lambda>step. Some (names_pool ! ((cur + step) mod length names_pool)))
                [1..<length names_pool]
          = map Some (map (\<lambda>step. names_pool ! ((cur + step) mod length names_pool))
                [1..<length names_pool])"
      by simp
    then show ?thesis by (simp only: scan_order [OF lt])
  qed
  let ?P = "\<lambda>candidate. candidate \<notin> avoid_set \<and> candidate \<notin> set (Some name # rest)"
  let ?rot = "drop (Suc cur) names_pool @ take cur names_pool"
  have idx: "list_index (map Some names_pool) (Some name) = Some cur"
    by (simp only: list_index_map_Some c)
  have fnd: "List.find ?P (map (\<lambda>step. Some (names_pool ! ((cur + step) mod length names_pool)))
                [1..<length names_pool])
              = map_option Some (List.find (\<lambda>c. ?P (Some c)) ?rot)"
    by (simp only: scan find_map_Some)
  have "bump_one (Some name # rest) names_pool avoid_set =
          (case map_option Some (List.find (\<lambda>c. ?P (Some c)) ?rot) of
             None \<Rightarrow> Inr (Some name)
           | Some candidate \<Rightarrow> Inr candidate)"
    unfolding bump_one_def by (simp only: ne if_False list.case idx option.case fnd)
  also have "\<dots> = Inr (case List.find (\<lambda>c. ?P (Some c)) ?rot of
                       Some candidate \<Rightarrow> Some candidate
                     | None \<Rightarrow> Some name)"
    by (cases "List.find (\<lambda>c. ?P (Some c)) ?rot") simp_all
  finally show ?thesis .
qed

text \<open>A substitute is always a name of the pool.\<close>

lemma bump_one_in_pool:
  assumes "name \<in> set names_pool"
  shows "\<exists>r. bump_one (Some name # rest) names_pool avoid_set = Inr (Some r)
           \<and> r \<in> set names_pool"
proof -
  from list_index_first [OF assms] obtain cur where c: "list_index names_pool name = Some cur"
    "cur < length names_pool" by blast
  let ?rot = "drop (Suc cur) names_pool @ take cur names_pool"
  let ?Q = "\<lambda>c. Some c \<notin> avoid_set \<and> Some c \<notin> set (Some name # rest)"
  have sub: "set ?rot \<subseteq> set names_pool"
    using set_drop_subset [of "Suc cur" names_pool] set_take_subset [of cur names_pool]
    by auto
  show ?thesis
  proof (cases "List.find ?Q ?rot")
    case None
    then show ?thesis using assms by (simp add: bump_one_eq [OF c])
  next
    case (Some r)
    then obtain i where "i < length ?rot" and "r = ?rot ! i"
      unfolding find_Some_iff by blast
    then have "r \<in> set ?rot" by (simp only: nth_mem)
    with sub have "r \<in> set names_pool" by blast
    with Some show ?thesis by (simp add: bump_one_eq [OF c])
  qed
qed

text \<open>
  Claim C3. When the pool contains the conflicting name (the head of the current
  selection), \<^verbatim>\<open>bump_one\<close> looks at the pool entries after the first position
  \<open>cur\<close> of that name, in pool order, then wraps to the entries before \<open>cur\<close>: every
  other position once. It returns the first of these candidates that is neither in the
  avoid-set nor in the current selection, and the conflicting name itself when there
  is none.
\<close>

theorem bump_one_scan:
  assumes "name \<in> set names_pool"
  shows "\<exists>cur. list_index names_pool name = Some cur \<and> cur < length names_pool
      \<and> names_pool ! cur = name \<and> (\<forall>j<cur. names_pool ! j \<noteq> name)
      \<and> bump_one (Some name # rest) names_pool avoid_set =
          Inr (case List.find (\<lambda>c. Some c \<notin> avoid_set \<and> Some c \<notin> set (Some name # rest))
                      (drop (Suc cur) names_pool @ take cur names_pool) of
                 Some candidate \<Rightarrow> Some candidate
               | None \<Rightarrow> Some name)"
proof -
  from list_index_first [OF assms] obtain cur where c: "list_index names_pool name = Some cur"
    "cur < length names_pool" "names_pool ! cur = name" "\<forall>j<cur. names_pool ! j \<noteq> name"
    by blast
  from c bump_one_eq [OF c(1) c(2), of rest avoid_set] show ?thesis by blast
qed

theorem bump_one_scan_witness:
  "''Ben'' \<in> set [''Ben'', ''Cal'', ''Dan'', ''Eli'']
   \<and> bump_one [Some ''Ben''] [''Ben'', ''Cal'', ''Dan'', ''Eli'']
        {Some ''Ann'', Some ''Ben'', Some ''Cal''} = Inr (Some ''Dan'')
   \<and> ''Ivy'' \<in> set [''Ivy'']
   \<and> bump_one [Some ''Ivy''] [''Ivy''] {Some ''Ivy''} = Inr (Some ''Ivy'')"
proof -
  have m1: "''Ben'' \<in> set [''Ben'', ''Cal'', ''Dan'', ''Eli'']" by simp
  from bump_one_scan [OF m1, of "[]" "{Some ''Ann'', Some ''Ben'', Some ''Cal''}"]
  obtain cur where "list_index [''Ben'', ''Cal'', ''Dan'', ''Eli''] ''Ben'' = Some cur"
    and r1: "bump_one [Some ''Ben''] [''Ben'', ''Cal'', ''Dan'', ''Eli'']
              {Some ''Ann'', Some ''Ben'', Some ''Cal''}
             = Inr (case List.find (\<lambda>c. Some c \<notin> {Some ''Ann'', Some ''Ben'', Some ''Cal''}
                                      \<and> Some c \<notin> set [Some ''Ben''])
                      (drop (Suc cur) [''Ben'', ''Cal'', ''Dan'', ''Eli'']
                         @ take cur [''Ben'', ''Cal'', ''Dan'', ''Eli'']) of
                 Some candidate \<Rightarrow> Some candidate
               | None \<Rightarrow> Some ''Ben'')"
    by blast
  then have "cur = 0" by simp
  with r1 have b1: "bump_one [Some ''Ben''] [''Ben'', ''Cal'', ''Dan'', ''Eli'']
        {Some ''Ann'', Some ''Ben'', Some ''Cal''} = Inr (Some ''Dan'')"
    by simp
  have m2: "''Ivy'' \<in> set [''Ivy'']" by simp
  from bump_one_scan [OF m2, of "[]" "{Some ''Ivy''}"]
  obtain cur' where "list_index [''Ivy''] ''Ivy'' = Some cur'"
    and r2: "bump_one [Some ''Ivy''] [''Ivy''] {Some ''Ivy''}
             = Inr (case List.find (\<lambda>c. Some c \<notin> {Some ''Ivy''} \<and> Some c \<notin> set [Some ''Ivy''])
                      (drop (Suc cur') [''Ivy''] @ take cur' [''Ivy'']) of
                 Some candidate \<Rightarrow> Some candidate
               | None \<Rightarrow> Some ''Ivy'')"
    by blast
  then have "cur' = 0" by simp
  with r2 have b2: "bump_one [Some ''Ivy''] [''Ivy''] {Some ''Ivy''} = Inr (Some ''Ivy'')"
    by simp
  from m1 b1 m2 b2 show ?thesis by blast
qed

section \<open>The week mode\<close>

text \<open>
  Claim C4. For a state that has an override entry and for every date, the week-mode
  decision is true when the override is \<open>special\<close>, false when it is \<open>normal\<close>, and
  otherwise true exactly when the month number is odd, the day of the month lies in
  \<open>1..7\<close> and the weekday is Monday.
\<close>

theorem is_special_week_decision:
  assumes "getitem state ''override'' = Inr override"
  shows "is_special_week state today =
     Inr (if override = JStr ''special'' then True
          else if override = JStr ''normal'' then False
          else odd (month today) \<and> day today \<in> {1..7} \<and> weekday today = 0)"
  using assms by (simp add: is_special_week_def is_first_monday_odd_month_def odd_iff_mod_2_eq_one)

theorem is_special_week_decision_witness:
  "getitem DEFAULT_STATE ''override'' = Inr JNull
   \<and> is_special_week DEFAULT_STATE \<lparr>year = 2025, month = 3, day = 3, weekday = 0\<rparr> = Inr True
   \<and> is_special_week DEFAULT_STATE \<lparr>year = 2025, month = 4, day = 7, weekday = 0\<rparr> = Inr False
   \<and> getitem (JObj [(''override'', JStr ''special'')]) ''override'' = Inr (JStr ''special'')
   \<and> is_special_week (JObj [(''override'', JStr ''special'')])
        \<lparr>year = 2025, month = 4, day = 7, weekday = 0\<rparr> = Inr True"
proof -
  have a: "getitem DEFAULT_STATE ''override'' = Inr JNull"
    by (simp add: DEFAULT_STATE_def)
  have b: "getitem (JObj [(''override'', JStr ''special'')]) ''override'' = Inr (JStr ''special'')"
    by simp
  show ?thesis
    using a b
      is_special_week_decision [OF a, of "\<lparr>year = 2025, month = 3, day = 3, weekday = 0\<rparr>"]
      is_special_week_decision [OF a, of "\<lparr>year = 2025, month = 4, day = 7, weekday = 0\<rparr>"]
      is_special_week_decision [OF b, of "\<lparr>year = 2025, month = 4, day = 7, weekday = 0\<rparr>"]
    by simp
qed

section \<open>Loading the state\<close>

lemma load_state_absent:
  "state_file d = None \<Longrightarrow>
     load_state d
       = (Inr DEFAULT_STATE, d\<lparr>state_file := Some (Text (Json_text DEFAULT_STATE))\<rparr>)"
  by (simp add: load_state_def save_state_def json_dumps_def json_loads_def read_text_def)

lemma load_state_present:
  "state_file d = Some f \<Longrightarrow> load_state d = (bnd (read_text (Some f)) json_loads, d)"
  by (simp add: load_state_def)

lemma load_state_twice: "load_state (snd (load_state d)) = load_state d"
proof (cases "state_file d")
  case None
  then show ?thesis
    by (simp add: load_state_absent load_state_present json_loads_def read_text_def)
next
  case (Some f)
  then show ?thesis by (simp add: load_state_present)
qed

text \<open>
  Claim C7 (as the code has it). A missing state file yields the default state, all
  cursors zero and no override, and is created with it. A state file that holds JSON
  yields the value it denotes. A corrupt or unreadable state file is not taken for a
  missing one: loading raises an error and leaves the file as it is. The error is the
  JSON decoding error for text that is not JSON, the Unicode decoding error for bytes
  that are not UTF-8, and the permission error for a file that may not be read.
\<close>

theorem load_state_cases:
  "load_state (d\<lparr>state_file := None\<rparr>)
     = (Inr DEFAULT_STATE, d\<lparr>state_file := Some (Text (Json_text DEFAULT_STATE))\<rparr>)
   \<and> map (get_cursor DEFAULT_STATE) (map fst LIST_CONFIG) = replicate 8 (Inr (JInt 0))
   \<and> getitem DEFAULT_STATE ''override'' = Inr JNull
   \<and> load_state (d\<lparr>state_file := Some (Text (Json_text v))\<rparr>)
       = (Inr v, d\<lparr>state_file := Some (Text (Json_text v))\<rparr>)
   \<and> load_state (d\<lparr>state_file := Some (Text Bad_text)\<rparr>)
       = (Inl JSONDecodeError, d\<lparr>state_file := Some (Text Bad_text)\<rparr>)
   \<and> load_state (d\<lparr>state_file := Some Not_utf8\<rparr>)
       = (Inl UnicodeDecodeError, d\<lparr>state_file := Some Not_utf8\<rparr>)
   \<and> load_state (d\<lparr>state_file := Some No_permission\<rparr>)
       = (Inl PermissionError, d\<lparr>state_file := Some No_permission\<rparr>)"
  by (simp add: load_state_absent load_state_present json_loads_def read_text_def
      DEFAULT_STATE_def LIST_CONFIG_def get_cursor_def eval_nat_numeral)

text \<open>
  Loading a corrupt or unreadable state file fails; the default state is not returned.
\<close>

theorem load_state_corrupt_counterexample:
  "load_state (sample_dir\<lparr>state_file := Some (Text Bad_text)\<rparr>)
     = (Inl JSONDecodeError, sample_dir\<lparr>state_file := Some (Text Bad_text)\<rparr>)
   \<and> load_state (sample_dir\<lparr>state_file := Some Not_utf8\<rparr>)
     = (Inl UnicodeDecodeError, sample_dir\<lparr>state_file := Some Not_utf8\<rparr>)
   \<and> load_state (sample_dir\<lparr>state_file := Some No_permission\<rparr>)
     = (Inl PermissionError, sample_dir\<lparr>state_file := Some No_permission\<rparr>)"
  by (simp add: load_state_present json_loads_def read_text_def)

section \<open>The status query\<close>

lemma status_reply_load:
  "status_reply d today =
     (bnd (fst (load_state d)) (\<lambda>state. bnd (is_special_week state today) (\<lambda>special.
        Inr (''Current mode: '' @ (if special then ''Special'' else ''Normal'')))),
      snd (load_state d))"
  by (cases "load_state d" rule: prod.exhaust; cases "fst (load_state d)")
     (auto simp: status_reply_def)

text \<open>
  Claim C9 (as the code has it). Two status queries in a row, the second on the data
  directory the first one left, give the same reply whenever the two clock readings
  agree on being the first Monday of an odd month (so whenever the date is the same),
  and whatever the dates when the stored override is \<open>special\<close> or \<open>normal\<close>; the
  second query leaves the data directory as the first one left it.
\<close>

theorem status_reply_twice:
  "(is_first_monday_odd_month today1 = is_first_monday_odd_month today2 \<longrightarrow>
      fst (status_reply (snd (status_reply d today1)) today2) = fst (status_reply d today1))
   \<and> (fst (load_state d) = Inr state
        \<and> (getitem state ''override'' = Inr (JStr ''special'')
            \<or> getitem state ''override'' = Inr (JStr ''normal'')) \<longrightarrow>
      fst (status_reply (snd (status_reply d today1)) today2) = fst (status_reply d today1))
   \<and> snd (status_reply (snd (status_reply d today1)) today2) = snd (status_reply d today1)"
proof -
  have same: "is_special_week state today2 = is_special_week state today1"
    if "is_first_monday_odd_month today1 = is_first_monday_odd_month today2" for state
    by (simp only: is_special_week_def that)
  have forced: "is_special_week state today2 = is_special_week state today1"
    if "getitem state ''override'' = Inr (JStr ''special'')
        \<or> getitem state ''override'' = Inr (JStr ''normal'')"
    using that by (auto simp: is_special_week_def)
  show ?thesis
    by (auto simp: status_reply_load load_state_twice same forced)
qed

theorem status_reply_twice_witness:
  "fst (status_reply (snd (status_reply sample_dir \<lparr>year = 2025, month = 3, day = 3, weekday = 0\<rparr>))
          \<lparr>year = 2025, month = 3, day = 3, weekday = 0\<rparr>)
     = Inr ''Current mode: Special''
   \<and> fst (status_reply sample_dir \<lparr>year = 2025, month = 3, day = 3, weekday = 0\<rparr>)
     = Inr ''Current mode: Special''"
  using status_reply_twice [of "\<lparr>year = 2025, month = 3, day = 3, weekday = 0\<rparr>"
      "\<lparr>year = 2025, month = 3, day = 3, weekday = 0\<rparr>" sample_dir DEFAULT_STATE]
  by (simp add: status_reply_load load_state_absent sample_dir_def is_special_week_def
      DEFAULT_STATE_def is_first_monday_odd_month_def)

text \<open>
  With no override stored, a query on Monday 3 March 2025 answers Special and the next
  query, on Tuesday 4 March 2025, answers Normal.
\<close>

theorem status_reply_counterexample:
  "fst (status_reply sample_dir \<lparr>year = 2025, month = 3, day = 3, weekday = 0\<rparr>)
     = Inr ''Current mode: Special''
   \<and> fst (status_reply
            (snd (status_reply sample_dir \<lparr>year = 2025, month = 3, day = 3, weekday = 0\<rparr>))
            \<lparr>year = 2025, month = 3, day = 4, weekday = 1\<rparr>)
     = Inr ''Current mode: Normal''"
  by (simp add: status_reply_load load_state_absent load_state_present json_loads_def
      read_text_def sample_dir_def is_special_week_def DEFAULT_STATE_def
      is_first_monday_odd_month_def)

section \<open>A whole cycle\<close>

lemma succeeds_iff: "succeeds m \<longleftrightarrow> (\<exists>x. m = Inr x)"
  by (cases m) (simp_all add: succeeds_def)

lemma config_keys:
  "key \<in> set (map fst LIST_CONFIG) \<longleftrightarrow>
     key = ''hymn'' \<or> key = ''bread_bro'' \<or> key = ''bread_sis'' \<or> key = ''baking''
     \<or> key = ''sharing'' \<or> key = ''pianist'' \<or> key = ''topic'' \<or> key = ''url''"
  by (auto simp: LIST_CONFIG_def)

lemma config_entry:
  "key \<in> set (map fst LIST_CONFIG) \<Longrightarrow> \<exists>cfg. map_of LIST_CONFIG key = Some cfg"
  unfolding config_keys by (auto simp: LIST_CONFIG_def)

lemma load_csv_list_roster:
  assumes "key \<in> set (map fst LIST_CONFIG)"
  shows "load_csv_list d key = Inr (roster d key)"
proof -
  from config_entry [OF assms] obtain cfg where "map_of LIST_CONFIG key = Some cfg" ..
  then show ?thesis
    by (simp add: roster_def load_csv_list_def split: option.splits)
qed

lemma cursors_okD:
  "cursors_ok d state \<Longrightarrow> key \<in> set (map fst LIST_CONFIG) \<Longrightarrow> roster d key \<noteq> [] \<Longrightarrow>
     \<exists>v i. get_cursor state key = Inr v \<and> as_index v = Inr i"
  unfolding cursors_ok_def list_all_iff
  by (auto simp: load_csv_list_roster succeeds_iff bnd_eq_Inr)

lemma cursors_okI:
  "(\<And>key. key \<in> set (map fst LIST_CONFIG) \<Longrightarrow> roster d key \<noteq> [] \<Longrightarrow>
      \<exists>v i. get_cursor state key = Inr v \<and> as_index v = Inr i) \<Longrightarrow> cursors_ok d state"
  unfolding cursors_ok_def list_all_iff
  by (auto simp: load_csv_list_roster succeeds_iff bnd_eq_Inr)

lemma rotated_cursor_cong:
  "get_cursor s key = get_cursor s' key \<Longrightarrow> rotated_cursor d s key = rotated_cursor d s' key"
  by (simp add: rotated_cursor_def)

text \<open>One call of the rotator, on a state whose cursors can be read.\<close>

lemma rot_step:
  assumes key: "key \<in> set (map fst LIST_CONFIG)" and ok: "cursors_ok d state"
  shows "\<exists>picked state'. get_list_with_advance d key state adv = Inr (picked, state')
     \<and> set picked \<subseteq> set (roster d key)
     \<and> cursors_ok d state'
     \<and> (\<forall>k. k \<noteq> key \<longrightarrow> get_cursor state' k = get_cursor state k)
     \<and> getitem state' ''override'' = getitem state ''override''
     \<and> get_cursor state' key =
         (if adv \<and> roster d key \<noteq> [] then rotated_cursor d state key
          else get_cursor state key)
     \<and> (\<not> adv \<longrightarrow> state' = state)"
proof (cases "roster d key = []")
  case True
  then have "get_list_with_advance d key state adv = Inr ([], state)"
    by (simp add: get_list_with_advance_def load_csv_list_roster [OF key])
  with True ok show ?thesis by simp
next
  case False
  from config_entry [OF key] obtain cfg where cfg: "map_of LIST_CONFIG key = Some cfg" ..
  from cursors_okD [OF ok key False] obtain v i
    where v: "get_cursor state key = Inr v" and i: "as_index v = Inr i" by blast
  let ?names = "roster d key"
  let ?picked = "map (\<lambda>j. ?names ! nat ((i + int j) mod int (length ?names)))
                   [0..<nat (count cfg)]"
  let ?new = "JInt ((i + count cfg) mod int (length ?names))"
  have mem: "set ?picked \<subseteq> set ?names"
    using False by (auto simp: pick_in_range)
  have rc: "rotated_cursor d state key = Inr ?new"
    by (simp add: rotated_cursor_def load_csv_list_roster [OF key] v i cfg)
  show ?thesis
  proof (cases adv)
    case False
    have "get_list_with_advance d key state adv = Inr (?picked, state)"
      using False \<open>roster d key \<noteq> []\<close>
      by (simp add: get_list_with_advance_def load_csv_list_roster [OF key] v i cfg
          next_items_Inr)
    with False mem ok show ?thesis by simp
  next
    case True
    from set_cursor_ok [OF v, of ?new] obtain state'
      where set: "set_cursor state key ?new = Inr state'"
        and get: "get_cursor state' key = Inr ?new"
        and frame: "\<forall>k. k \<noteq> key \<longrightarrow> get_cursor state' k = get_cursor state k"
        and ov: "getitem state' ''override'' = getitem state ''override''" by blast
    have run: "get_list_with_advance d key state adv = Inr (?picked, state')"
      using True \<open>roster d key \<noteq> []\<close>
      by (simp add: get_list_with_advance_def load_csv_list_roster [OF key] v i cfg
          next_items_Inr advance_index_def set)
    have ok': "cursors_ok d state'"
    proof (rule cursors_okI)
      fix k assume k: "k \<in> set (map fst LIST_CONFIG)" and ne: "roster d k \<noteq> []"
      show "\<exists>v i. get_cursor state' k = Inr v \<and> as_index v = Inr i"
      proof (cases "k = key")
        case True
        then show ?thesis using get by simp
      next
        case False
        then show ?thesis using frame cursors_okD [OF ok k ne] by simp
      qed
    qed
    from run mem ok' frame ov get rc True \<open>roster d key \<noteq> []\<close> show ?thesis by simp
  qed
qed

text \<open>The eight calls in a row.\<close>

lemma rotate_roles_total:
  assumes ok: "cursors_ok d state"
  obtains hymn bread_bro bread_sis baking sharing pianist topic url state'
  where "rotate_roles d state adv
        = Inr ((hymn, bread_bro, bread_sis, baking, sharing, pianist, topic, url), state')"
    and "set hymn \<subseteq> set (roster d ''hymn'')"
    and "set bread_bro \<subseteq> set (roster d ''bread_bro'')"
    and "set bread_sis \<subseteq> set (roster d ''bread_sis'')"
    and "set baking \<subseteq> set (roster d ''baking'')"
    and "set sharing \<subseteq> set (roster d ''sharing'')"
    and "set pianist \<subseteq> set (roster d ''pianist'')"
    and "set topic \<subseteq> set (roster d ''topic'')"
    and "set url \<subseteq> set (roster d ''url'')"
    and "getitem state' ''override'' = getitem state ''override''"
    and "\<forall>key \<in> set (map fst LIST_CONFIG). get_cursor state' key =
          (if adv \<and> roster d key \<noteq> [] then rotated_cursor d state key
           else get_cursor state key)"
    and "\<not> adv \<longrightarrow> state' = state"
proof -
  have k1: "''hymn'' \<in> set (map fst LIST_CONFIG)" unfolding config_keys by simp
  from rot_step [OF k1 ok, of adv] obtain hymn s1
    where r1: "get_list_with_advance d ''hymn'' state adv = Inr (hymn, s1)"
      and p1: "set hymn \<subseteq> set (roster d ''hymn'')"
      and o1: "cursors_ok d s1"
      and f1: "\<And>k. k \<noteq> ''hymn'' \<Longrightarrow> get_cursor s1 k = get_cursor state k"
      and v1: "getitem s1 ''override'' = getitem state ''override''"
      and g1: "get_cursor s1 ''hymn'' =
           (if adv \<and> roster d ''hymn'' \<noteq> [] then rotated_cursor d state ''hymn''
            else get_cursor state ''hymn'')"
      and n1: "\<not> adv \<longrightarrow> s1 = state"
    by blast
  have k2: "''bread_bro'' \<in> set (map fst LIST_CONFIG)" unfolding config_keys by simp
  from rot_step [OF k2 o1, of adv] obtain bread_bro s2
    where r2: "get_list_with_advance d ''bread_bro'' s1 adv = Inr (bread_bro, s2)"
      and p2: "set bread_bro \<subseteq> set (roster d ''bread_bro'')"
      and o2: "cursors_ok d s2"
      and f2: "\<And>k. k \<noteq> ''bread_bro'' \<Longrightarrow> get_cursor s2 k = get_cursor s1 k"
      and v2: "getitem s2 ''override'' = getitem s1 ''override''"
      and g2: "get_cursor s2 ''bread_bro'' =
           (if adv \<and> roster d ''bread_bro'' \<noteq> [] then rotated_cursor d s1 ''bread_bro''
            else get_cursor s1 ''bread_bro'')"
      and n2: "\<not> adv \<longrightarrow> s2 = s1"
    by blast
  have k3: "''bread_sis'' \<in> set (map fst LIST_CONFIG)" unfolding config_keys by simp
  from rot_step [OF k3 o2, of adv] obtain bread_sis s3
    where r3: "get_list_with_advance d ''bread_sis'' s2 adv = Inr (bread_sis, s3)"
      and p3: "set bread_sis \<subseteq> set (roster d ''bread_sis'')"
      and o3: "cursors_ok d s3"
      and f3: "\<And>k. k \<noteq> ''bread_sis'' \<Longrightarrow> get_cursor s3 k = get_cursor s2 k"
      and v3: "getitem s3 ''override'' = getitem s2 ''override''"
      and g3: "get_cursor s3 ''bread_sis'' =
           (if adv \<and> roster d ''bread_sis'' \<noteq> [] then rotated_cursor d s2 ''bread_sis''
            else get_cursor s2 ''bread_sis'')"
      and n3: "\<not> adv \<longrightarrow> s3 = s2"
    by blast
  have k4: "''baking'' \<in> set (map fst LIST_CONFIG)" unfolding config_keys by simp
  from rot_step [OF k4 o3, of adv] obtain baking s4
    where r4: "get_list_with_advance d ''baking'' s3 adv = Inr (baking, s4)"
      and p4: "set baking \<subseteq> set (roster d ''baking'')"
      and o4: "cursors_ok d s4"
      and f4: "\<And>k. k \<noteq> ''baking'' \<Longrightarrow> get_cursor s4 k = get_cursor s3 k"
      and v4: "getitem s4 ''override'' = getitem s3 ''override''"
      and g4: "get_cursor s4 ''baking'' =
           (if adv \<and> roster d ''baking'' \<noteq> [] then rotated_cursor d s3 ''baking''
            else get_cursor s3 ''baking'')"
      and n4: "\<not> adv \<longrightarrow> s4 = s3"
    by blast
  have k5: "''sharing'' \<in> set (map fst LIST_CONFIG)" unfolding config_keys by simp
  from rot_step [OF k5 o4, of adv] obtain sharing s5
    where r5: "get_list_with_advance d ''sharing'' s4 adv = Inr (sharing, s5)"
      and p5: "set sharing \<subseteq> set (roster d ''sharing'')"
      and o5: "cursors_ok d s5"
      and f5: "\<And>k. k \<noteq> ''sharing'' \<Longrightarrow> get_cursor s5 k = get_cursor s4 k"
      and v5: "getitem s5 ''override'' = getitem s4 ''override''"
      and g5: "get_cursor s5 ''sharing'' =
           (if adv \<and> roster d ''sharing'' \<noteq> [] then rotated_cursor d s4 ''sharing''
            else get_cursor s4 ''sharing'')"
      and n5: "\<not> adv \<longrightarrow> s5 = s4"
    by blast
  have k6: "''pianist'' \<in> set (map fst LIST_CONFIG)" unfolding config_keys by simp
  from rot_step [OF k6 o5, of adv] obtain pianist s6
    where r6: "get_list_with_advance d ''pianist'' s5 adv = Inr (pianist, s6)"
      and p6: "set pianist \<subseteq> set (roster d ''pianist'')"
      and o6: "cursors_ok d s6"
      and f6: "\<And>k. k \<noteq> ''pianist'' \<Longrightarrow> get_cursor s6 k = get_cursor s5 k"
      and v6: "getitem s6 ''override'' = getitem s5 ''override''"
      and g6: "get_cursor s6 ''pianist'' =
           (if adv \<and> roster d ''pianist'' \<noteq> [] then rotated_cursor d s5 ''pianist''
            else get_cursor s5 ''pianist'')"
      and n6: "\<not> adv \<longrightarrow> s6 = s5"
    by blast
  have k7: "''topic'' \<in> set (map fst LIST_CONFIG)" unfolding config_keys by simp
  from rot_step [OF k7 o6, of adv] obtain topic s7
    where r7: "get_list_with_advance d ''topic'' s6 adv = Inr (topic, s7)"
      and p7: "set topic \<subseteq> set (roster d ''topic'')"
      and o7: "cursors_ok d s7"
      and f7: "\<And>k. k \<noteq> ''topic'' \<Longrightarrow> get_cursor s7 k = get_cursor s6 k"
      and v7: "getitem s7 ''override'' = getitem s6 ''override''"
      and g7: "get_cursor s7 ''topic'' =
           (if adv \<and> roster d ''topic'' \<noteq> [] then rotated_cursor d s6 ''topic''
            else get_cursor s6 ''topic'')"
      and n7: "\<not> adv \<longrightarrow> s7 = s6"
    by blast
  have k8: "''url'' \<in> set (map fst LIST_CONFIG)" unfolding config_keys by simp
  from rot_step [OF k8 o7, of adv] obtain url s8
    where r8: "get_list_with_advance d ''url'' s7 adv = Inr (url, s8)"
      and p8: "set url \<subseteq> set (roster d ''url'')"
      and o8: "cursors_ok d s8"
      and f8: "\<And>k. k \<noteq> ''url'' \<Longrightarrow> get_cursor s8 k = get_cursor s7 k"
      and v8: "getitem s8 ''override'' = getitem s7 ''override''"
      and g8: "get_cursor s8 ''url'' =
           (if adv \<and> roster d ''url'' \<noteq> [] then rotated_cursor d s7 ''url''
            else get_cursor s7 ''url'')"
      and n8: "\<not> adv \<longrightarrow> s8 = s7"
    by blast
  have run: "rotate_roles d state adv
        = Inr ((hymn, bread_bro, bread_sis, baking, sharing, pianist, topic, url), s8)"
    by (simp add: rotate_roles_def r1 r2 r3 r4 r5 r6 r7 r8)
  have ov: "getitem s8 ''override'' = getitem state ''override''"
    by (simp only: v1 v2 v3 v4 v5 v6 v7 v8)
  have same: "\<not> adv \<longrightarrow> s8 = state"
    using n1 n2 n3 n4 n5 n6 n7 n8 by simp
  have a1: "get_cursor s8 ''hymn'' = get_cursor s1 ''hymn''"
    by (simp add: f2 f3 f4 f5 f6 f7 f8)
  have c1: "get_cursor s8 ''hymn'' =
      (if adv \<and> roster d ''hymn'' \<noteq> [] then rotated_cursor d state ''hymn''
       else get_cursor state ''hymn'')"
    by (simp only: a1 g1)
  have b2: "get_cursor s1 ''bread_bro'' = get_cursor state ''bread_bro''"
    by (simp add: f1)
  have a2: "get_cursor s8 ''bread_bro'' = get_cursor s2 ''bread_bro''"
    by (simp add: f3 f4 f5 f6 f7 f8)
  have c2: "get_cursor s8 ''bread_bro'' =
      (if adv \<and> roster d ''bread_bro'' \<noteq> [] then rotated_cursor d state ''bread_bro''
       else get_cursor state ''bread_bro'')"
    by (simp only: a2 g2 b2 rotated_cursor_cong [OF b2])
  have b3: "get_cursor s2 ''bread_sis'' = get_cursor state ''bread_sis''"
    by (simp add: f1 f2)
  have a3: "get_cursor s8 ''bread_sis'' = get_cursor s3 ''bread_sis''"
    by (simp add: f4 f5 f6 f7 f8)
  have c3: "get_cursor s8 ''bread_sis'' =
      (if adv \<and> roster d ''bread_sis'' \<noteq> [] then rotated_cursor d state ''bread_sis''
       else get_cursor state ''bread_sis'')"
    by (simp only: a3 g3 b3 rotated_cursor_cong [OF b3])
  have b4: "get_cursor s3 ''baking'' = get_cursor state ''baking''"
    by (simp add: f1 f2 f3)
  have a4: "get_cursor s8 ''baking'' = get_cursor s4 ''baking''"
    by (simp add: f5 f6 f7 f8)
  have c4: "get_cursor s8 ''baking'' =
      (if adv \<and> roster d ''baking'' \<noteq> [] then rotated_cursor d state ''baking''
       else get_cursor state ''baking'')"
    by (simp only: a4 g4 b4 rotated_cursor_cong [OF b4])
  have b5: "get_cursor s4 ''sharing'' = get_cursor state ''sharing''"
    by (simp add: f1 f2 f3 f4)
  have a5: "get_cursor s8 ''sharing'' = get_cursor s5 ''sharing''"
    by (simp add: f6 f7 f8)
  have c5: "get_cursor s8 ''sharing'' =
      (if adv \<and> roster d ''sharing'' \<noteq> [] then rotated_cursor d state ''sharing''
       else get_cursor state ''sharing'')"
    by (simp only: a5 g5 b5 rotated_cursor_cong [OF b5])
  have b6: "get_cursor s5 ''pianist'' = get_cursor state ''pianist''"
    by (simp add: f1 f2 f3 f4 f5)
  have a6: "get_cursor s8 ''pianist'' = get_cursor s6 ''pianist''"
    by (simp add: f7 f8)
  have c6: "get_cursor s8 ''pianist'' =
      (if adv \<and> roster d ''pianist'' \<noteq> [] then rotated_cursor d state ''pianist''
       else get_cursor state ''pianist'')"
    by (simp only: a6 g6 b6 rotated_cursor_cong [OF b6])
  have b7: "get_cursor s6 ''topic'' = get_cursor state ''topic''"
    by (simp add: f1 f2 f3 f4 f5 f6)
  have a7: "get_cursor s8 ''topic'' = get_cursor s7 ''topic''"
    by (simp add: f8)
  have c7: "get_cursor s8 ''topic'' =
      (if adv \<and> roster d ''topic'' \<noteq> [] then rotated_cursor d state ''topic''
       else get_cursor state ''topic'')"
    by (simp only: a7 g7 b7 rotated_cursor_cong [OF b7])
  have b8: "get_cursor s7 ''url'' = get_cursor state ''url''"
    by (simp add: f1 f2 f3 f4 f5 f6 f7)
  have c8: "get_cursor s8 ''url'' =
      (if adv \<and> roster d ''url'' \<noteq> [] then rotated_cursor d state ''url''
       else get_cursor state ''url'')"
    by (simp only: g8 b8 rotated_cursor_cong [OF b8])
  have cur: "\<forall>key \<in> set (map fst LIST_CONFIG). get_cursor s8 key =
          (if adv \<and> roster d key \<noteq> [] then rotated_cursor d state key
           else get_cursor state key)"
    using c1 c2 c3 c4 c5 c6 c7 c8 by (auto simp only: config_keys)
  from run p1 p2 p3 p4 p5 p6 p7 p8 ov cur same show ?thesis by (rule that)
qed

section \<open>Resolving duplicates\<close>

lemma bump_bread_bro_total:
  "set bread_bro \<subseteq> Some ` set pool_bro \<Longrightarrow>
     \<exists>r. bump_bread_bro hymn pool_bro i bread_bro = Inr r
        \<and> set r \<subseteq> Some ` set pool_bro \<and> length r = length bread_bro"
proof (induction hymn pool_bro i bread_bro rule: bump_bread_bro.induct)
  case (1 hymn pool_bro i bread_bro)
  show ?case
  proof (cases "i < length bread_bro")
    case False
    with "1.prems" show ?thesis
      by (subst bump_bread_bro.simps) simp
  next
    case True
    let ?person = "bread_bro ! i"
    show ?thesis
    proof (cases "?person \<in> set hymn")
      case False
      from "1.IH"(2) [OF True refl False "1.prems"] True False show ?thesis
        by (subst bump_bread_bro.simps) simp
    next
      case inh: True
      from True "1.prems" obtain x where x: "?person = Some x" "x \<in> set pool_bro"
        by (metis imageE nth_mem subsetD)
      from bump_one_in_pool [OF x(2), of "[]" "set (hymn @ bread_bro)"] obtain r
        where r: "bump_one [?person] pool_bro (set (hymn @ bread_bro)) = Inr (Some r)"
          and rp: "r \<in> set pool_bro" by (auto simp: x(1))
      have "set (bread_bro[i := Some r]) \<subseteq> Some ` set pool_bro"
        using "1.prems" rp set_update_subset_insert [of bread_bro i "Some r"] by auto
      from "1.IH"(1) [OF True refl inh r this] True inh r show ?thesis
        by (subst bump_bread_bro.simps) simp
    qed
  qed
qed

lemma resolve_duplicates_total:
  assumes bb: "set bread_bro \<subseteq> Some ` set (roster d ''bread_bro'')"
    and sh: "set sharing \<subseteq> Some ` set (roster d ''sharing'')"
    and pi: "set pianist \<subseteq> Some ` set (roster d ''pianist'')"
  shows "\<exists>bread_bro' sharing' pianist'.
      resolve_duplicates d hymn bread_bro sharing topic pianist state
        = Inr ((hymn, bread_bro', sharing', topic, pianist'), state)
    \<and> None \<notin> set bread_bro'
    \<and> length bread_bro' = length bread_bro
    \<and> length sharing' = length sharing
    \<and> length pianist' = length pianist"
proof -
  have keys: "''bread_bro'' \<in> set (map fst LIST_CONFIG)" "''sharing'' \<in> set (map fst LIST_CONFIG)"
    "''pianist'' \<in> set (map fst LIST_CONFIG)"
    unfolding config_keys by simp_all
  note pools = keys [THEN load_csv_list_roster, of d]
  from bump_bread_bro_total [OF bb, of hymn 0] obtain bread_bro'
    where b1: "bump_bread_bro hymn (roster d ''bread_bro'') 0 bread_bro = Inr bread_bro'"
      and b2: "set bread_bro' \<subseteq> Some ` set (roster d ''bread_bro'')"
      and b3: "length bread_bro' = length bread_bro" by blast
  from b2 have b4: "None \<notin> set bread_bro'" by auto
  let ?sharing_step =
    "if sharing \<noteq> [] \<and> topic \<noteq> [] \<and> sharing ! 0 = topic ! 0
     then bnd (bump_one sharing (roster d ''sharing'') (set topic)) (\<lambda>r. Inr (sharing[0 := r]))
     else Inr sharing"
  have "\<exists>sharing'. ?sharing_step = Inr sharing' \<and> length sharing' = length sharing"
  proof (cases sharing)
    case Nil
    then show ?thesis by simp
  next
    case (Cons a rest)
    with sh obtain x where "a = Some x" "x \<in> set (roster d ''sharing'')" by auto
    with bump_one_in_pool [of x "roster d ''sharing''" rest "set topic"] Cons
    show ?thesis by auto
  qed
  then obtain sharing' where s1: "?sharing_step = Inr sharing'"
    and s2: "length sharing' = length sharing" by blast
  let ?pianist_step =
    "if length pianist = 2 \<and> pianist ! 0 = pianist ! 1
     then bnd (bump_one [pianist ! 1] (roster d ''pianist'') (set (take 1 pianist)))
            (\<lambda>r. Inr (pianist[1 := r]))
     else Inr pianist"
  have "\<exists>pianist'. ?pianist_step = Inr pianist' \<and> length pianist' = length pianist"
  proof (cases "length pianist = 2 \<and> pianist ! 0 = pianist ! 1")
    case False
    then show ?thesis by auto
  next
    case True
    then have "pianist ! 1 \<in> set pianist" by simp
    with pi obtain x where "pianist ! 1 = Some x" "x \<in> set (roster d ''pianist'')" by auto
    with bump_one_in_pool [of x "roster d ''pianist''" "[]" "set (take 1 pianist)"] True
    show ?thesis by auto
  qed
  then obtain pianist' where p1: "?pianist_step = Inr pianist'"
    and p2: "length pianist' = length pianist" by blast
  have "resolve_duplicates d hymn bread_bro sharing topic pianist state
        = Inr ((hymn, bread_bro', sharing', topic, pianist'), state)"
    unfolding resolve_duplicates_def by (simp only: pools bnd_Inr b1 s1 p1)
  with b4 b3 s2 p2 show ?thesis by blast
qed

lemma resolve_duplicates_frame:
  assumes "resolve_duplicates d hymn bread_bro sharing topic pianist state
             = Inr ((hymn', bread_bro', sharing', topic', pianist'), state')"
  shows "state' = state \<and> hymn' = hymn \<and> topic' = topic"
  using assms unfolding resolve_duplicates_def bnd_eq_Inr by auto

section \<open>The text\<close>

lemma py_join_ok: "None \<notin> set xs \<Longrightarrow> py_join fullwidth_space xs = Inr (joined xs)"
  by (simp add: py_join_def joined_def)

lemma special_msg_lines: "special_msg sharing pianist = join_str newline (special_lines sharing pianist)"
  by (simp add: special_msg_def special_lines_def)

lemma normal_msg_lines:
  assumes "None \<notin> set hymn" "None \<notin> set bread_bro" "None \<notin> set bread_sis"
  shows "normal_msg hymn bread_bro bread_sis baking sharing pianist topic url
           = Inr (join_str newline
                (normal_lines hymn bread_bro bread_sis baking sharing pianist topic url))"
  using assms
  by (simp add: normal_msg_def normal_lines_def py_join_ok pianist_pair_def Let_def)

text \<open>What a cycle returns on a readable state, whatever the rosters are.\<close>

lemma compose_message_result:
  assumes ok: "state_ok d state"
  obtains hymn bread_bro0 bread_sis baking sharing0 pianist0 topic url
            bread_bro sharing pianist state' special
  where "rotate_roles d state adv
        = Inr ((hymn, bread_bro0, bread_sis, baking, sharing0, pianist0, topic, url), state')"
    and "resolve_duplicates d (map Some hymn) (map Some bread_bro0) (map Some sharing0)
          (map Some topic) (map Some pianist0) state'
        = Inr ((map Some hymn, bread_bro, sharing, map Some topic, pianist), state')"
    and "is_special_week state' today = Inr special"
    and "is_special_week state today = Inr special"
    and "compose_message d state adv today
        = Inr (join_str newline
                 (if special then special_lines sharing pianist
                  else normal_lines (map Some hymn) bread_bro (map Some bread_sis)
                         (map Some baking) sharing pianist (map Some topic) (map Some url)),
               state')"
    and "set hymn \<subseteq> set (roster d ''hymn'')"
    and "length bread_bro = length bread_bro0"
    and "set bread_bro0 \<subseteq> set (roster d ''bread_bro'')"
    and "set bread_sis \<subseteq> set (roster d ''bread_sis'')"
    and "set baking \<subseteq> set (roster d ''baking'')"
    and "length sharing = length sharing0"
    and "set sharing0 \<subseteq> set (roster d ''sharing'')"
    and "length pianist = length pianist0"
    and "set pianist0 \<subseteq> set (roster d ''pianist'')"
    and "set topic \<subseteq> set (roster d ''topic'')"
    and "set url \<subseteq> set (roster d ''url'')"
    and "\<forall>key \<in> set (map fst LIST_CONFIG). get_cursor state' key =
          (if adv \<and> roster d key \<noteq> [] then rotated_cursor d state key
           else get_cursor state key)"
    and "\<not> adv \<longrightarrow> state' = state"
proof -
  from ok have cok: "cursors_ok d state" and ov: "succeeds (getitem state ''override'')"
    by (simp_all add: state_ok_def)
  from rotate_roles_total [OF cok, of adv]
  obtain hymn bread_bro0 bread_sis baking sharing0 pianist0 topic url state'
    where rot: "rotate_roles d state adv
        = Inr ((hymn, bread_bro0, bread_sis, baking, sharing0, pianist0, topic, url), state')"
      and s1: "set hymn \<subseteq> set (roster d ''hymn'')"
      and s2: "set bread_bro0 \<subseteq> set (roster d ''bread_bro'')"
      and s3: "set bread_sis \<subseteq> set (roster d ''bread_sis'')"
      and s4: "set baking \<subseteq> set (roster d ''baking'')"
      and s5: "set sharing0 \<subseteq> set (roster d ''sharing'')"
      and s6: "set pianist0 \<subseteq> set (roster d ''pianist'')"
      and s7: "set topic \<subseteq> set (roster d ''topic'')"
      and s8: "set url \<subseteq> set (roster d ''url'')"
      and ov': "getitem state' ''override'' = getitem state ''override''"
      and cur: "\<forall>key \<in> set (map fst LIST_CONFIG). get_cursor state' key =
          (if adv \<and> roster d key \<noteq> [] then rotated_cursor d state key
           else get_cursor state key)"
      and same: "\<not> adv \<longrightarrow> state' = state"
    .
  have "set (map Some bread_bro0) \<subseteq> Some ` set (roster d ''bread_bro'')"
    "set (map Some sharing0) \<subseteq> Some ` set (roster d ''sharing'')"
    "set (map Some pianist0) \<subseteq> Some ` set (roster d ''pianist'')"
    using s2 s5 s6 by auto
  from resolve_duplicates_total [OF this, of "map Some hymn" "map Some topic" state']
  obtain bread_bro sharing pianist
    where res: "resolve_duplicates d (map Some hymn) (map Some bread_bro0) (map Some sharing0)
          (map Some topic) (map Some pianist0) state'
        = Inr ((map Some hymn, bread_bro, sharing, map Some topic, pianist), state')"
      and nn: "None \<notin> set bread_bro"
      and len: "length bread_bro = length bread_bro0" "length sharing = length sharing0"
        "length pianist = length pianist0"
    by auto
  from ov obtain v where v: "getitem state ''override'' = Inr v"
    by (auto simp: succeeds_iff)
  then have "\<exists>special. is_special_week state today = Inr special"
    by (auto simp: is_special_week_def)
  then obtain special where sp: "is_special_week state today = Inr special" ..
  have sp': "is_special_week state' today = Inr special"
    using sp by (simp add: is_special_week_def ov')
  have nmsg: "normal_msg (map Some hymn) bread_bro (map Some bread_sis) (map Some baking)
               sharing pianist (map Some topic) (map Some url)
             = Inr (join_str newline (normal_lines (map Some hymn) bread_bro (map Some bread_sis)
                         (map Some baking) sharing pianist (map Some topic) (map Some url)))"
    by (rule normal_msg_lines) (use nn in auto)
  have run: "compose_message d state adv today
        = Inr (join_str newline
                 (if special then special_lines sharing pianist
                  else normal_lines (map Some hymn) bread_bro (map Some bread_sis)
                         (map Some baking) sharing pianist (map Some topic) (map Some url)),
               state')"
    by (simp add: compose_message_def rot res sp' nmsg special_msg_lines)
  from rot res sp' sp run s1 len(1) s2 s3 s4 len(2) s5 len(3) s6 s7 s8 cur same
  show ?thesis by (rule that)
qed


lemma sample_state_ok: "state_ok sample_dir DEFAULT_STATE" "state_ok full_dir DEFAULT_STATE"
  by code_simp+

lemma sample_rotate:
  "rotate_roles sample_dir DEFAULT_STATE True =
     Inr (([''Ann'', ''Ben''], [''Ben'', ''Cal''], [''Joy'', ''Kim''], [], [''Fay''],
           [''Ivy'', ''Ivy''], [''Fay''], [''u1'']), sample_state_after)"
  by code_simp

lemma sample_resolve:
  "resolve_duplicates sample_dir [Some ''Ann'', Some ''Ben''] [Some ''Ben'', Some ''Cal'']
      [Some ''Fay''] [Some ''Fay''] [Some ''Ivy'', Some ''Ivy''] DEFAULT_STATE
   = Inr (([Some ''Ann'', Some ''Ben''], [Some ''Dan'', Some ''Cal''], [Some ''Gus''],
           [Some ''Fay''], [Some ''Ivy'', Some ''Ivy'']), DEFAULT_STATE)"
  by code_simp


lemma sample_compose_normal:
  "compose_message sample_dir DEFAULT_STATE True next_tuesday
   = Inr (join_str newline
            [label_hymn @ ''Ann'' @ fullwidth_space @ ''Ben'',
             label_bread_bro @ ''Dan'' @ fullwidth_space @ ''Cal'',
             label_bread_sis @ ''Joy'' @ fullwidth_space @ ''Kim'',
             label_baking,
             label_sharing @ ''Gus'',
             label_pianist @ mark_sat @ ''Ivy'' @ fullwidth_space @ mark_sun @ ''Ivy'',
             label_topic @ ''Fay'',
             label_url @ ''u1''],
          sample_state_after)"
  by code_simp

section \<open>The composed text\<close>



section \<open>Empty rosters\<close>

text \<open>
  Claim C6. For a role whose roster is missing or empty, the rotator returns the empty
  selection and the state it was given, whatever that state is. A cycle on a readable
  state then raises no error, whichever rosters are empty; it leaves that role's
  cursor as it was, and in a normal week the role's line of the message is its label
  with the empty value.
\<close>

theorem empty_roster_degrades:
  assumes key: "key \<in> set (map fst LIST_CONFIG)" and empty: "load_csv_list d key = Inr []"
  shows "get_list_with_advance d key state advance = Inr ([], state)
    \<and> (state_ok d state \<longrightarrow>
        (\<exists>msg state'. compose_message d state advance today = Inr (msg, state')
           \<and> get_cursor state' key = get_cursor state key
           \<and> (is_special_week state today = Inr False \<longrightarrow>
                (\<exists>hymn bread_bro bread_sis baking sharing pianist topic url i label.
                     msg = join_str newline
                       (normal_lines hymn bread_bro bread_sis baking sharing pianist topic url)
                   \<and> list_index (map fst LIST_CONFIG) key = Some i
                   \<and> map_of role_labels key = Some label
                   \<and> normal_lines hymn bread_bro bread_sis baking sharing pianist topic url ! i
                       = label))))"
proof (intro conjI impI)
  show "get_list_with_advance d key state advance = Inr ([], state)"
    by (simp add: get_list_with_advance_def empty)
next
  assume ok: "state_ok d state"
  have r0: "roster d key = []" by (simp add: roster_def empty)
  obtain hymn bread_bro0 bread_sis baking sharing0 pianist0 topic url
            bread_bro sharing pianist state' special
    where sp: "is_special_week state today = Inr special"
      and run: "compose_message d state advance today
        = Inr (join_str newline
                 (if special then special_lines sharing pianist
                  else normal_lines (map Some hymn) bread_bro (map Some bread_sis)
                         (map Some baking) sharing pianist (map Some topic) (map Some url)),
               state')"
      and s_hymn: "set hymn \<subseteq> set (roster d ''hymn'')"
      and l_bro: "length bread_bro = length bread_bro0"
      and s_bro: "set bread_bro0 \<subseteq> set (roster d ''bread_bro'')"
      and s_sis: "set bread_sis \<subseteq> set (roster d ''bread_sis'')"
      and s_bak: "set baking \<subseteq> set (roster d ''baking'')"
      and l_sha: "length sharing = length sharing0"
      and s_sha: "set sharing0 \<subseteq> set (roster d ''sharing'')"
      and l_pia: "length pianist = length pianist0"
      and s_pia: "set pianist0 \<subseteq> set (roster d ''pianist'')"
      and s_top: "set topic \<subseteq> set (roster d ''topic'')"
      and s_url: "set url \<subseteq> set (roster d ''url'')"
      and cur: "\<forall>key \<in> set (map fst LIST_CONFIG). get_cursor state' key =
          (if advance \<and> roster d key \<noteq> [] then rotated_cursor d state key
           else get_cursor state key)"
    by (rule compose_message_result [OF ok, of advance today]) (rule that)
  have kept: "get_cursor state' key = get_cursor state key"
    using bspec [OF cur key] r0 by simp
  have line: "\<exists>i label. list_index (map fst LIST_CONFIG) key = Some i
      \<and> map_of role_labels key = Some label
      \<and> normal_lines (map Some hymn) bread_bro (map Some bread_sis) (map Some baking)
            sharing pianist (map Some topic) (map Some url) ! i = label"
    using key unfolding config_keys
  proof (elim disjE)
      assume k: "key = ''hymn''"
      with r0 s_hymn have "hymn = []" by simp
      with k show ?thesis
        by (simp add: normal_lines_def joined_def pianist_pair_def LIST_CONFIG_def
            role_labels_def)
    next
      assume k: "key = ''bread_bro''"
      with r0 s_bro have "bread_bro0 = []" by simp
      with l_bro have "bread_bro = []" by simp
      with k show ?thesis
        by (simp add: normal_lines_def joined_def pianist_pair_def LIST_CONFIG_def
            role_labels_def)
    next
      assume k: "key = ''bread_sis''"
      with r0 s_sis have "bread_sis = []" by simp
      with k show ?thesis
        by (simp add: normal_lines_def joined_def pianist_pair_def LIST_CONFIG_def
            role_labels_def)
    next
      assume k: "key = ''baking''"
      with r0 s_bak have "baking = []" by simp
      with k show ?thesis
        by (simp add: normal_lines_def joined_def pianist_pair_def LIST_CONFIG_def
            role_labels_def)
    next
      assume k: "key = ''sharing''"
      with r0 s_sha have "sharing0 = []" by simp
      with l_sha have "sharing = []" by simp
      with k show ?thesis
        by (simp add: normal_lines_def joined_def pianist_pair_def LIST_CONFIG_def
            role_labels_def)
    next
      assume k: "key = ''pianist''"
      with r0 s_pia have "pianist0 = []" by simp
      with l_pia have "pianist = []" by simp
      with k show ?thesis
        by (simp add: normal_lines_def joined_def pianist_pair_def LIST_CONFIG_def
            role_labels_def)
    next
      assume k: "key = ''topic''"
      with r0 s_top have "topic = []" by simp
      with k show ?thesis
        by (simp add: normal_lines_def joined_def pianist_pair_def LIST_CONFIG_def
            role_labels_def)
    next
      assume k: "key = ''url''"
      with r0 s_url have "url = []" by simp
      with k show ?thesis
        by (simp add: normal_lines_def joined_def pianist_pair_def LIST_CONFIG_def
            role_labels_def)
  qed
  have "\<exists>hy bb bs bk sh pi tp ur i label.
          join_str newline
             (if special then special_lines sharing pianist
              else normal_lines (map Some hymn) bread_bro (map Some bread_sis)
                     (map Some baking) sharing pianist (map Some topic) (map Some url))
           = join_str newline (normal_lines hy bb bs bk sh pi tp ur)
        \<and> list_index (map fst LIST_CONFIG) key = Some i
        \<and> map_of role_labels key = Some label
        \<and> normal_lines hy bb bs bk sh pi tp ur ! i = label"
    if "is_special_week state today = Inr False"
  proof -
    from that sp have ns: "\<not> special" by simp
    from line obtain i label
      where a: "list_index (map fst LIST_CONFIG) key = Some i"
        and b: "map_of role_labels key = Some label"
        and c: "normal_lines (map Some hymn) bread_bro (map Some bread_sis) (map Some baking)
            sharing pianist (map Some topic) (map Some url) ! i = label"
      by blast
    have e: "join_str newline
             (if special then special_lines sharing pianist
              else normal_lines (map Some hymn) bread_bro (map Some bread_sis)
                     (map Some baking) sharing pianist (map Some topic) (map Some url))
           = join_str newline (normal_lines (map Some hymn) bread_bro (map Some bread_sis)
                     (map Some baking) sharing pianist (map Some topic) (map Some url))"
      using ns by simp
    from e a b c show ?thesis by blast
  qed
  with run kept
  show "\<exists>msg state'. compose_message d state advance today = Inr (msg, state')
           \<and> get_cursor state' key = get_cursor state key
           \<and> (is_special_week state today = Inr False \<longrightarrow>
                (\<exists>hymn bread_bro bread_sis baking sharing pianist topic url i label.
                     msg = join_str newline
                       (normal_lines hymn bread_bro bread_sis baking sharing pianist topic url)
                   \<and> list_index (map fst LIST_CONFIG) key = Some i
                   \<and> map_of role_labels key = Some label
                   \<and> normal_lines hymn bread_bro bread_sis baking sharing pianist topic url ! i
                       = label))"
    by (intro exI conjI) (assumption | simp)+
qed


lemma sample_facts:
  "is_special_week DEFAULT_STATE next_tuesday = Inr False"
  "is_special_week DEFAULT_STATE first_monday = Inr True"
  "get_list_with_advance sample_dir ''baking'' DEFAULT_STATE True = Inr ([], DEFAULT_STATE)"
  "get_cursor sample_state_after ''baking'' = Inr (JInt 0)"
  "get_cursor DEFAULT_STATE ''baking'' = Inr (JInt 0)"
  by code_simp+

theorem empty_roster_degrades_witness:
  "''baking'' \<in> set (map fst LIST_CONFIG)
   \<and> load_csv_list sample_dir ''baking'' = Inr []
   \<and> state_ok sample_dir DEFAULT_STATE
   \<and> is_special_week DEFAULT_STATE next_tuesday = Inr False
   \<and> get_list_with_advance sample_dir ''baking'' DEFAULT_STATE True = Inr ([], DEFAULT_STATE)
   \<and> compose_message sample_dir DEFAULT_STATE True next_tuesday
       = Inr (join_str newline
            [label_hymn @ ''Ann'' @ fullwidth_space @ ''Ben'',
             label_bread_bro @ ''Dan'' @ fullwidth_space @ ''Cal'',
             label_bread_sis @ ''Joy'' @ fullwidth_space @ ''Kim'',
             label_baking,
             label_sharing @ ''Gus'',
             label_pianist @ mark_sat @ ''Ivy'' @ fullwidth_space @ mark_sun @ ''Ivy'',
             label_topic @ ''Fay'',
             label_url @ ''u1''],
          sample_state_after)
   \<and> get_cursor sample_state_after ''baking'' = get_cursor DEFAULT_STATE ''baking''"
proof -
  have k: "''baking'' \<in> set (map fst LIST_CONFIG)"
    unfolding config_keys by simp
  note e = sample_rosters(4)
  from empty_roster_degrades [OF k e, of DEFAULT_STATE True next_tuesday]
    k e sample_state_ok(1) sample_facts sample_compose_normal
  show ?thesis by simp
qed

section \<open>Cursors after a cycle\<close>

lemma compose_message_state:
  assumes "compose_message d state advance today = Inr (msg, state'')"
  shows "\<exists>picked. rotate_roles d state advance = Inr (picked, state'')"
  using assms unfolding compose_message_def
  by (auto simp: bnd_eq_Inr split: if_splits dest!: resolve_duplicates_frame)

text \<open>
  Claim C8. Conflict resolution leaves the state alone: \<^verbatim>\<open>resolve_duplicates\<close>
  returns the state it was given, cursors included, so the state a cycle returns is
  the state the eight rotations produced, whatever was substituted.
\<close>

theorem resolve_duplicates_keeps_state:
  "(resolve_duplicates d hymn bread_bro sharing topic pianist state = Inr (selections, state')
      \<longrightarrow> state' = state)
   \<and> (compose_message d state advance today = Inr (msg, state'')
      \<longrightarrow> (\<exists>picked. rotate_roles d state advance = Inr (picked, state'')))"
proof (intro conjI impI)
  assume r: "resolve_duplicates d hymn bread_bro sharing topic pianist state
               = Inr (selections, state')"
  obtain h b s t p where "selections = (h, b, s, t, p)"
    by (cases selections) auto
  with r resolve_duplicates_frame [of d hymn bread_bro sharing topic pianist state h b s t p state']
  show "state' = state" by simp
next
  assume "compose_message d state advance today = Inr (msg, state'')"
  then show "\<exists>picked. rotate_roles d state advance = Inr (picked, state'')"
    by (rule compose_message_state)
qed

theorem resolve_duplicates_keeps_state_witness:
  "resolve_duplicates sample_dir [Some ''Ann'', Some ''Ben''] [Some ''Ben'', Some ''Cal'']
      [Some ''Fay''] [Some ''Fay''] [Some ''Ivy'', Some ''Ivy''] DEFAULT_STATE
   = Inr (([Some ''Ann'', Some ''Ben''], [Some ''Dan'', Some ''Cal''], [Some ''Gus''],
           [Some ''Fay''], [Some ''Ivy'', Some ''Ivy'']), DEFAULT_STATE)
   \<and> compose_message sample_dir DEFAULT_STATE True next_tuesday
       = Inr (join_str newline
            [label_hymn @ ''Ann'' @ fullwidth_space @ ''Ben'',
             label_bread_bro @ ''Dan'' @ fullwidth_space @ ''Cal'',
             label_bread_sis @ ''Joy'' @ fullwidth_space @ ''Kim'',
             label_baking,
             label_sharing @ ''Gus'',
             label_pianist @ mark_sat @ ''Ivy'' @ fullwidth_space @ mark_sun @ ''Ivy'',
             label_topic @ ''Fay'',
             label_url @ ''u1''],
          sample_state_after)
   \<and> rotate_roles sample_dir DEFAULT_STATE True =
     Inr (([''Ann'', ''Ben''], [''Ben'', ''Cal''], [''Joy'', ''Kim''], [], [''Fay''],
           [''Ivy'', ''Ivy''], [''Fay''], [''u1'']), sample_state_after)"
  using resolve_duplicates_keeps_state [where d = sample_dir
      and hymn = "[Some ''Ann'', Some ''Ben'']" and bread_bro = "[Some ''Ben'', Some ''Cal'']"
      and sharing = "[Some ''Fay'']" and topic = "[Some ''Fay'']"
      and pianist = "[Some ''Ivy'', Some ''Ivy'']" and state = DEFAULT_STATE
      and advance = True and today = next_tuesday]
    sample_resolve sample_compose_normal sample_rotate
  by simp

text \<open>
  Claim C10. When none of the eight rosters is empty, an advancing cycle on a readable
  state moves the cursor of every one of the eight roles from the stored integer \<open>c\<close>
  to \<open>(c + n) mod L\<close> (a stored boolean counts as 1 or 0, as in Python), whatever the
  week mode: in a special week the text shows the sharing and pianist names only, and
  the other roles have rotated all the same.
\<close>

theorem compose_message_advances_all:
  assumes ok: "state_ok d state"
    and full: "\<forall>key \<in> set (map fst LIST_CONFIG). load_csv_list d key \<noteq> Inr []"
  shows "\<exists>msg state'. compose_message d state True today = Inr (msg, state')
     \<and> (\<forall>key \<in> set (map fst LIST_CONFIG). \<exists>names cfg.
            load_csv_list d key = Inr names \<and> names \<noteq> []
          \<and> map_of LIST_CONFIG key = Some cfg
          \<and> (\<forall>c. get_cursor state key = Inr (JInt c) \<longrightarrow>
                get_cursor state' key = Inr (JInt ((c + count cfg) mod int (length names))))
          \<and> (\<forall>b. get_cursor state key = Inr (JBool b) \<longrightarrow>
                get_cursor state' key
                  = Inr (JInt (((if b then 1 else 0) + count cfg) mod int (length names))))
          \<and> ((\<exists>c. get_cursor state key = Inr (JInt c))
               \<or> (\<exists>b. get_cursor state key = Inr (JBool b))))"
proof -
  obtain msg state'
    where run: "compose_message d state True today = Inr (msg, state')"
      and cur: "\<forall>key \<in> set (map fst LIST_CONFIG). get_cursor state' key =
          (if True \<and> roster d key \<noteq> [] then rotated_cursor d state key
           else get_cursor state key)"
    by (rule compose_message_result [OF ok, of True today]) (rule that)
  from ok have cok: "cursors_ok d state" by (simp add: state_ok_def)
  have "\<exists>names cfg.
            load_csv_list d key = Inr names \<and> names \<noteq> []
          \<and> map_of LIST_CONFIG key = Some cfg
          \<and> (\<forall>c. get_cursor state key = Inr (JInt c) \<longrightarrow>
                get_cursor state' key = Inr (JInt ((c + count cfg) mod int (length names))))
          \<and> (\<forall>b. get_cursor state key = Inr (JBool b) \<longrightarrow>
                get_cursor state' key
                  = Inr (JInt (((if b then 1 else 0) + count cfg) mod int (length names))))
          \<and> ((\<exists>c. get_cursor state key = Inr (JInt c))
               \<or> (\<exists>b. get_cursor state key = Inr (JBool b)))"
    if key: "key \<in> set (map fst LIST_CONFIG)" for key
  proof -
    let ?names = "roster d key"
    have names: "load_csv_list d key = Inr ?names"
      by (rule load_csv_list_roster [OF key])
    with bspec [OF full key] have ne: "?names \<noteq> []" by auto
    from config_entry [OF key] obtain cfg where cfg: "map_of LIST_CONFIG key = Some cfg" ..
    from cursors_okD [OF cok key ne] obtain v idx
      where v: "get_cursor state key = Inr v" and i: "as_index v = Inr idx" by blast
    have "rotated_cursor d state key = Inr (JInt ((idx + count cfg) mod int (length ?names)))"
      by (simp add: rotated_cursor_def names v i cfg)
    with bspec [OF cur key] ne
    have new: "get_cursor state' key = Inr (JInt ((idx + count cfg) mod int (length ?names)))"
      by simp
    have int: "get_cursor state' key = Inr (JInt ((c + count cfg) mod int (length ?names)))"
      if "get_cursor state key = Inr (JInt c)" for c
      using that v i new by simp
    have bool: "get_cursor state' key
                  = Inr (JInt (((if b then 1 else 0) + count cfg) mod int (length ?names)))"
      if "get_cursor state key = Inr (JBool b)" for b
      using that v i new by auto
    have kind: "(\<exists>c. get_cursor state key = Inr (JInt c))
               \<or> (\<exists>b. get_cursor state key = Inr (JBool b))"
      using v i by (cases v) simp_all
    from names ne cfg int bool kind show ?thesis by blast
  qed
  with run show ?thesis by blast
qed

lemma full_facts:
  "list_all (\<lambda>key. load_csv_list full_dir key \<noteq> Inr []) (map fst LIST_CONFIG)"
  "state_ok full_dir sample_state_after"
  "map (get_cursor sample_state_after) (map fst LIST_CONFIG)
     = [Inr (JInt 2), Inr (JInt 2), Inr (JInt 2), Inr (JInt 0),
        Inr (JInt 1), Inr (JInt 0), Inr (JInt 1), Inr (JInt 1)]"
  "map (\<lambda>key. length (roster full_dir key)) (map fst LIST_CONFIG) = [3, 4, 3, 1, 2, 1, 2, 2]"
  "is_special_week sample_state_after first_monday = Inr True"
  by code_simp+

lemma full_compose_second:
  "compose_message full_dir sample_state_after True first_monday
   = Inr (label_sharing @ ''Gus'' @ newline @ label_pianist @ mark_sat @ ''Ivy'',
          JObj [(''indexes'',
            JObj [(''hymn'', JInt 1), (''bread_bro'', JInt 0), (''bread_sis'', JInt 1),
                  (''baking'', JInt 0), (''sharing'', JInt 0), (''pianist'', JInt 0),
                  (''topic'', JInt 0), (''url'', JInt 0)]),
           (''override'', JNull)])"
  by code_simp

theorem compose_message_advances_all_witness:
  "state_ok full_dir sample_state_after
   \<and> list_all (\<lambda>key. load_csv_list full_dir key \<noteq> Inr []) (map fst LIST_CONFIG)
   \<and> is_special_week sample_state_after first_monday = Inr True
   \<and> map (get_cursor sample_state_after) (map fst LIST_CONFIG)
       = [Inr (JInt 2), Inr (JInt 2), Inr (JInt 2), Inr (JInt 0),
          Inr (JInt 1), Inr (JInt 0), Inr (JInt 1), Inr (JInt 1)]
   \<and> map (\<lambda>key. length (roster full_dir key)) (map fst LIST_CONFIG) = [3, 4, 3, 1, 2, 1, 2, 2]
   \<and> compose_message full_dir sample_state_after True first_monday
       = Inr (label_sharing @ ''Gus'' @ newline @ label_pianist @ mark_sat @ ''Ivy'',
          JObj [(''indexes'',
            JObj [(''hymn'', JInt 1), (''bread_bro'', JInt 0), (''bread_sis'', JInt 1),
                  (''baking'', JInt 0), (''sharing'', JInt 0), (''pianist'', JInt 0),
                  (''topic'', JInt 0), (''url'', JInt 0)]),
           (''override'', JNull)])"
proof -
  have f: "\<forall>key \<in> set (map fst LIST_CONFIG). load_csv_list full_dir key \<noteq> Inr []"
    using full_facts(1) by (simp only: list_all_iff)
  from compose_message_advances_all [OF full_facts(2) f, of first_monday]
    full_facts full_compose_second
  show ?thesis by simp
qed


end
